theory Spec2Isabelle
  imports
    Complex_Main
    "HOL-Library.Word"
    "HOL-Library.Char_ord"
    "HOL-Library.List_Lexorder"
    "HOL-Library.Product_Lexorder"
    "HOL-Library.AList"
begin

section \<open>The comparison engine of diff\_tool\_pro.py\<close>

text \<open>
  This theory embeds the class \<^verbatim>\<open>FileAnalyzer\<close> of \<^verbatim>\<open>src/diff_tool_pro.py\<close>:
  \<^verbatim>\<open>get_file_hash\<close>, \<^verbatim>\<open>is_text_file\<close>, \<^verbatim>\<open>get_text_similarity\<close>,
  \<^verbatim>\<open>extract_or_walk\<close> and \<^verbatim>\<open>compare\<close>.

  Conventions.
  \<^item> A Python \<^verbatim>\<open>str\<close> that is a path, a label or a dictionary key is a \<open>string\<close>;
    a character outside ASCII stands as its UTF-8 bytes, whose lexicographic order is the
    order of the code points that Python's \<^verbatim>\<open>sorted\<close> uses.
  \<^item> The bytes of a file are a \<open>byte list\<close>; the text decoded from a file is the list of
    its code points, a \<open>nat list\<close>.
  \<^item> A Python \<^verbatim>\<open>float\<close> similarity is the exact rational it rounds; the claims
    about it only compare the values 0, 1 and small quotients that are exact in binary.
  \<^item> What the operating system answers (sizes, contents, directory listings) is a
    record of observations, \<open>filesys\<close>; library functions whose results depend on tables or
    on the process (MIME types, SHA-256, current directory, string hashing, the zip
    format, number formatting) are the fields of a record \<open>pylib\<close>.
  \<^item> An exception that leaves \<^verbatim>\<open>compare\<close> is a value \<open>Inl e\<close>.
\<close>

unbundle bit_operations_syntax

type_synonym byte = "8 word"

subsection \<open>Strings and paths (str methods, posixpath)\<close>

text \<open>\<^verbatim>\<open>s.startswith(p)\<close>.\<close>

definition startswith :: "'a list \<Rightarrow> 'a list \<Rightarrow> bool" where
  "startswith s p = (take (length p) s = p)"

text \<open>\<^verbatim>\<open>s.endswith(p)\<close>.\<close>

definition endswith :: "'a list \<Rightarrow> 'a list \<Rightarrow> bool" where
  "endswith s p = (length p \<le> length s \<and> drop (length s - length p) s = p)"

text \<open>
  \<^verbatim>\<open>s.lower()\<close>, whose result the source compares with the ASCII strings of the
  archive extensions. The letters A to Z become a to z, and U+212A KELVIN SIGN (the
  bytes E2 84 AA) becomes \<^verbatim>\<open>k\<close>: it is the one character outside ASCII whose lowercase
  is ASCII. Every other character outside ASCII is kept; Python maps it to characters
  outside ASCII again, so that the result equals an ASCII string here exactly when it
  does in Python.
\<close>

fun lower :: "string \<Rightarrow> string" where
  "lower [] = []"
| "lower (c # s) =
     (if c = CHR 0xE2 \<and> take 2 s = [CHR 0x84, CHR 0xAA] then CHR ''k'' # lower (drop 2 s)
      else if CHR ''A'' \<le> c \<and> c \<le> CHR ''Z'' then char_of (of_char c + (32::nat)) # lower s
      else c # lower s)"

text \<open>\<^verbatim>\<open>s.replace(old, new)\<close> for one-character \<^verbatim>\<open>old\<close> and \<^verbatim>\<open>new\<close>.\<close>

definition replace_char :: "char \<Rightarrow> char \<Rightarrow> string \<Rightarrow> string" where
  "replace_char old new s = map (\<lambda>c. if c = old then new else c) s"

text \<open>\<^verbatim>\<open>s.rfind(c)\<close>: the highest index of \<open>c\<close> in \<open>s\<close>, or \<open>-1\<close>.\<close>

fun rfind_from :: "char \<Rightarrow> string \<Rightarrow> int \<Rightarrow> int \<Rightarrow> int" where
  "rfind_from c [] i found = found"
| "rfind_from c (x # xs) i found = rfind_from c xs (i + 1) (if x = c then i else found)"

definition rfind :: "string \<Rightarrow> char \<Rightarrow> int" where
  "rfind s c = rfind_from c s 0 (- 1)"

text \<open>
  \<^verbatim>\<open>genericpath._splitext(p, sep, None, extsep)\<close>, which \<^verbatim>\<open>posixpath.splitext\<close> calls
  with \<open>sep = '/'\<close> and \<open>extsep = '.'\<close>. The loop skips the leading dots of the file
  name: it returns at the first character between the separator and the last dot that
  is not a dot.
\<close>

function skip_leading_dots :: "string \<Rightarrow> nat \<Rightarrow> nat \<Rightarrow> bool" where
  "skip_leading_dots p filenameIndex dotIndex =
     (if filenameIndex < dotIndex then
        (if take 1 (drop filenameIndex p) \<noteq> ''.'' then True
         else skip_leading_dots p (filenameIndex + 1) dotIndex)
      else False)"
  by pat_completeness auto
termination
  by (relation "measure (\<lambda>(p, filenameIndex, dotIndex). dotIndex - filenameIndex)") auto

declare skip_leading_dots.simps [simp del]

definition splitext :: "string \<Rightarrow> string \<times> string" where
  "splitext p =
     (let sepIndex = rfind p CHR ''/'';
          dotIndex = rfind p CHR ''.''
      in if dotIndex > sepIndex \<and>
            skip_leading_dots p (nat (sepIndex + 1)) (nat dotIndex)
         then (take (nat dotIndex) p, drop (nat dotIndex) p)
         else (p, []))"

text \<open>\<^verbatim>\<open>posixpath.basename(p)\<close>.\<close>

definition basename :: "string \<Rightarrow> string" where
  "basename p = drop (nat (rfind p CHR ''/'' + 1)) p"

text \<open>\<^verbatim>\<open>posixpath.join(a, b)\<close> with two arguments.\<close>

definition path_join :: "string \<Rightarrow> string \<Rightarrow> string" where
  "path_join a b =
     (if startswith b ''/'' then b
      else if a = [] \<or> endswith a ''/'' then a @ b
      else a @ ''/'' @ b)"

subsection \<open>Decoding UTF-8 (the codec behind open(..., encoding='utf-8'))\<close>

text \<open>
  One step of CPython's UTF-8 decoder at the head of the remaining bytes: a code point
  and the number of bytes it takes, an invalid sequence and the number of bytes the
  error covers (one for an invalid start byte, else the bytes before the offending
  continuation byte), or a sequence cut short by the end of the data. The accepted
  sequences are the well-formed ones of the Unicode standard: no overlong form, no
  surrogate, nothing above U+10FFFF.
\<close>

datatype utf8_step = Decoded nat nat | Invalid nat | Truncated

definition is_continuation_byte :: "byte \<Rightarrow> bool" where
  "is_continuation_byte c = (0x80 \<le> c \<and> c < 0xC0)"

fun utf8_decode1 :: "byte list \<Rightarrow> utf8_step" where
  "utf8_decode1 [] = Truncated"
| "utf8_decode1 (ch # s) =
     (if ch < 0x80 then Decoded (unat ch) 1
      else if ch < 0xC2 then Invalid 1
      else if ch < 0xE0 then
        (case s of
           [] \<Rightarrow> Truncated
         | ch2 # _ \<Rightarrow>
             if \<not> is_continuation_byte ch2 then Invalid 1
             else Decoded (unat ch * 64 + unat ch2 - (0xC0 * 64 + 0x80)) 2)
      else if ch < 0xF0 then
        (case s of
           [] \<Rightarrow> Truncated
         | ch2 # s2 \<Rightarrow>
             if \<not> is_continuation_byte ch2 \<or> (if ch2 < 0xA0 then ch = 0xE0 else ch = 0xED)
             then Invalid 1
             else
               (case s2 of
                  [] \<Rightarrow> Truncated
                | ch3 # _ \<Rightarrow>
                    if \<not> is_continuation_byte ch3 then Invalid 2
                    else Decoded (unat ch * 4096 + unat ch2 * 64 + unat ch3
                                  - (0xE0 * 4096 + 0x80 * 64 + 0x80)) 3))
      else if ch < 0xF5 then
        (case s of
           [] \<Rightarrow> Truncated
         | ch2 # s2 \<Rightarrow>
             if \<not> is_continuation_byte ch2 \<or> (if ch2 < 0x90 then ch = 0xF0 else ch = 0xF4)
             then Invalid 1
             else
               (case s2 of
                  [] \<Rightarrow> Truncated
                | ch3 # s3 \<Rightarrow>
                    if \<not> is_continuation_byte ch3 then Invalid 2
                    else
                      (case s3 of
                         [] \<Rightarrow> Truncated
                       | ch4 # _ \<Rightarrow>
                           if \<not> is_continuation_byte ch4 then Invalid 3
                           else Decoded (unat ch * 262144 + unat ch2 * 4096 + unat ch3 * 64
                                         + unat ch4
                                         - (0xF0 * 262144 + 0x80 * 4096 + 0x80 * 64 + 0x80)) 4)))
      else Invalid 1)"

lemma utf8_decode1_Decoded_pos: "utf8_decode1 s = Decoded c n \<Longrightarrow> 0 < n \<and> n \<le> length s"
  by (cases s) (auto split: if_splits list.splits)

lemma utf8_decode1_Invalid_pos: "utf8_decode1 s = Invalid n \<Longrightarrow> 0 < n \<and> n \<le> length s"
  by (cases s) (auto split: if_splits list.splits)

text \<open>
  Decoding with \<^verbatim>\<open>errors='strict'\<close>: \<open>None\<close> is the \<^verbatim>\<open>UnicodeDecodeError\<close>. With
  \<open>final\<close> the data ends here and a sequence cut short is an error; without it the
  incremental decoder keeps the cut sequence as pending input (also a lone
  \<^verbatim>\<open>ED A0..BF\<close> at the end, the start of a surrogate it cannot yet reject), and
  returns it beside the code points.
\<close>

function utf8_decode_strict :: "bool \<Rightarrow> byte list \<Rightarrow> (nat list \<times> byte list) option" where
  "utf8_decode_strict final s =
     (if s = [] then Some ([], [])
      else
        (case utf8_decode1 s of
           Decoded c n \<Rightarrow>
             (case utf8_decode_strict final (drop n s) of
                None \<Rightarrow> None
              | Some (cs, pending) \<Rightarrow> Some (c # cs, pending))
         | Invalid n \<Rightarrow>
             (if \<not> final \<and> length s = 2 \<and> hd s = 0xED \<and> 0xA0 \<le> s ! 1 \<and> s ! 1 < 0xC0
              then Some ([], s) else None)
         | Truncated \<Rightarrow> (if final then None else Some ([], s))))"
  by pat_completeness auto
termination
  by (relation "measure (\<lambda>(final, s). length s)")
     (auto dest: utf8_decode1_Decoded_pos)

declare utf8_decode_strict.simps [simp del]

text \<open>
  Decoding a whole file with \<^verbatim>\<open>errors='ignore'\<close>: the bytes an error covers are
  dropped and decoding goes on after them; a sequence cut short by the end of the file
  is dropped whole.
\<close>

function utf8_decode_ignore :: "byte list \<Rightarrow> nat list" where
  "utf8_decode_ignore s =
     (if s = [] then []
      else
        (case utf8_decode1 s of
           Decoded c n \<Rightarrow> c # utf8_decode_ignore (drop n s)
         | Invalid n \<Rightarrow> utf8_decode_ignore (drop n s)
         | Truncated \<Rightarrow> []))"
  by pat_completeness auto
termination
  by (relation "measure length")
     (auto dest: utf8_decode1_Decoded_pos utf8_decode1_Invalid_pos)

declare utf8_decode_ignore.simps [simp del]

subsection \<open>difflib.SequenceMatcher\<close>

text \<open>
  \<^verbatim>\<open>SequenceMatcher(None, a, b)\<close> of CPython's \<^verbatim>\<open>Lib/difflib.py\<close>, as
  \<^verbatim>\<open>get_text_similarity\<close> calls it: no junk predicate, \<^verbatim>\<open>autojunk\<close> left at
  \<^verbatim>\<open>True\<close>. Indices are natural numbers; a dictionary keyed by elements is an
  association list, one keyed by indices a map.

  \<^verbatim>\<open>__chain_b\<close>: \<open>b2j\<close> maps each element of \<open>b\<close> to the ascending list of its
  positions; when \<open>b\<close> has 200 elements or more, the elements that occur more than
  \<open>n div 100 + 1\<close> times are removed from it.
\<close>

fun chain_b_index :: "'a list \<Rightarrow> nat \<Rightarrow> ('a \<times> nat list) list \<Rightarrow> ('a \<times> nat list) list" where
  "chain_b_index [] i b2j = b2j"
| "chain_b_index (elt # b) i b2j =
     chain_b_index b (i + 1)
       (AList.update elt ((case map_of b2j elt of None \<Rightarrow> [] | Some indices \<Rightarrow> indices) @ [i]) b2j)"

definition chain_b :: "'a list \<Rightarrow> ('a \<times> nat list) list" where
  "chain_b b =
     (let b2j = chain_b_index b 0 [];
          n = length b
      in if n \<ge> 200 then
           (let ntest = n div 100 + 1;
                popular = map fst (filter (\<lambda>(elt, idxs). length idxs > ntest) b2j)
            in filter (\<lambda>(elt, idxs). elt \<notin> set popular) b2j)
         else b2j)"

text \<open>\<^verbatim>\<open>b2j.get(x, [])\<close> and \<^verbatim>\<open>j2len.get(j - 1, 0)\<close>; the key \<open>-1\<close> is never present.\<close>

definition b2j_get :: "('a \<times> nat list) list \<Rightarrow> 'a \<Rightarrow> nat list" where
  "b2j_get b2j x = (case map_of b2j x of None \<Rightarrow> [] | Some js \<Rightarrow> js)"

definition j2len_get :: "(nat \<rightharpoonup> nat) \<Rightarrow> nat \<Rightarrow> nat" where
  "j2len_get j2len j = (if j = 0 then 0 else case j2len (j - 1) of None \<Rightarrow> 0 | Some k \<Rightarrow> k)"

text \<open>
  \<^verbatim>\<open>find_longest_match(alo, ahi, blo, bhi)\<close>. A match is \<open>(i, j, k)\<close>: \<open>k\<close> elements
  from \<open>a[i]\<close> equal those from \<open>b[j]\<close>. \<open>flm_inner\<close> is the loop over the positions \<open>j\<close>
  of \<open>a[i]\<close> in \<open>b\<close> (\<^verbatim>\<open>continue\<close> below \<open>blo\<close>, \<^verbatim>\<open>break\<close> from \<open>bhi\<close>), \<open>flm_outer\<close>
  the loop over \<open>i\<close>; \<open>i + 1 - k\<close> is the source's \<open>i-k+1\<close>, where \<open>k\<close> is at most
  \<open>i + 1 - alo\<close>. The four \<^verbatim>\<open>while\<close> loops that extend the match to the left and to
  the right are \<open>extend_left\<close> and \<open>extend_right\<close>, first over elements that are not junk,
  then over junk.
\<close>

type_synonym match = "nat \<times> nat \<times> nat"

fun flm_inner ::
  "nat \<Rightarrow> nat \<Rightarrow> nat \<Rightarrow> (nat \<rightharpoonup> nat) \<Rightarrow> nat list \<Rightarrow> (nat \<rightharpoonup> nat) \<times> match \<Rightarrow> (nat \<rightharpoonup> nat) \<times> match" where
  "flm_inner i blo bhi j2len [] st = st"
| "flm_inner i blo bhi j2len (j # js) (newj2len, (besti, bestj, bestsize)) =
     (if j < blo then flm_inner i blo bhi j2len js (newj2len, (besti, bestj, bestsize))
      else if j \<ge> bhi then (newj2len, (besti, bestj, bestsize))
      else
        (let k = j2len_get j2len j + 1
         in flm_inner i blo bhi j2len js
              (newj2len(j \<mapsto> k),
               if k > bestsize then (i + 1 - k, j + 1 - k, k) else (besti, bestj, bestsize))))"

fun flm_outer ::
  "'a list \<Rightarrow> ('a \<times> nat list) list \<Rightarrow> nat \<Rightarrow> nat \<Rightarrow> nat list \<Rightarrow> (nat \<rightharpoonup> nat) \<Rightarrow> match \<Rightarrow> match" where
  "flm_outer a b2j blo bhi [] j2len best = best"
| "flm_outer a b2j blo bhi (i # is) j2len best =
     (case flm_inner i blo bhi j2len (b2j_get b2j (a ! i)) (Map.empty, best) of
        (newj2len, best') \<Rightarrow> flm_outer a b2j blo bhi is newj2len best')"

function extend_left :: "('a \<Rightarrow> bool) \<Rightarrow> 'a list \<Rightarrow> 'a list \<Rightarrow> nat \<Rightarrow> nat \<Rightarrow> match \<Rightarrow> match" where
  "extend_left want a b alo blo (besti, bestj, bestsize) =
     (if besti > alo \<and> bestj > blo \<and> want (b ! (bestj - 1)) \<and> a ! (besti - 1) = b ! (bestj - 1)
      then extend_left want a b alo blo (besti - 1, bestj - 1, bestsize + 1)
      else (besti, bestj, bestsize))"
  by pat_completeness auto
termination
  by (relation "measure (\<lambda>(want, a, b, alo, blo, besti, bestj, bestsize). besti)") auto

declare extend_left.simps [simp del]

function extend_right :: "('a \<Rightarrow> bool) \<Rightarrow> 'a list \<Rightarrow> 'a list \<Rightarrow> nat \<Rightarrow> nat \<Rightarrow> match \<Rightarrow> match" where
  "extend_right want a b ahi bhi (besti, bestj, bestsize) =
     (if besti + bestsize < ahi \<and> bestj + bestsize < bhi \<and> want (b ! (bestj + bestsize))
         \<and> a ! (besti + bestsize) = b ! (bestj + bestsize)
      then extend_right want a b ahi bhi (besti, bestj, bestsize + 1)
      else (besti, bestj, bestsize))"
  by pat_completeness auto
termination
  by (relation "measure (\<lambda>(want, a, b, ahi, bhi, besti, bestj, bestsize). ahi - (besti + bestsize))") auto

declare extend_right.simps [simp del]

definition find_longest_match ::
  "'a list \<Rightarrow> 'a list \<Rightarrow> ('a \<times> nat list) list \<Rightarrow> ('a \<Rightarrow> bool) \<Rightarrow> nat \<Rightarrow> nat \<Rightarrow> nat \<Rightarrow> nat \<Rightarrow> match" where
  "find_longest_match a b b2j isbjunk alo ahi blo bhi =
     (let best0 = flm_outer a b2j blo bhi [alo..<ahi] Map.empty (alo, blo, 0);
          best1 = extend_left (\<lambda>x. \<not> isbjunk x) a b alo blo best0;
          best2 = extend_right (\<lambda>x. \<not> isbjunk x) a b ahi bhi best1;
          best3 = extend_left isbjunk a b alo blo best2;
          best4 = extend_right isbjunk a b ahi bhi best3
      in best4)"

text \<open>
  The match found lies in the range of \<open>a\<close> that was searched, or is the empty match at
  its start: what the loop of \<^verbatim>\<open>get_matching_blocks\<close> needs to terminate.
\<close>

definition in_range :: "nat \<Rightarrow> nat \<Rightarrow> match \<Rightarrow> bool" where
  "in_range alo ahi m = (case m of (i, j, k) \<Rightarrow> (k = 0 \<and> i = alo) \<or> (alo \<le> i \<and> i + k \<le> ahi))"

lemma flm_inner_inv:
  assumes "flm_inner i blo bhi j2len js (nj, best) = (nj', best')"
    and "\<And>j v. j2len j = Some v \<Longrightarrow> v + alo \<le> i"
    and "\<And>j v. nj j = Some v \<Longrightarrow> v + alo \<le> i + 1"
    and "in_range alo i best \<or> in_range alo (i + 1) best" and "alo \<le> i"
  shows "(\<forall>j v. nj' j = Some v \<longrightarrow> v + alo \<le> i + 1) \<and> in_range alo (i + 1) best'"
  using assms
proof (induction js arbitrary: nj best)
  case Nil
  then show ?case by (auto simp: in_range_def split: prod.splits)
next
  case (Cons j js)
  obtain bi bj bs where b: "best = (bi, bj, bs)" by (cases best)
  have k: "j2len_get j2len j + alo \<le> i"
    using Cons.prems(2,5) by (auto simp: j2len_get_def split: option.splits)
  show ?case
  proof (cases "j < blo")
    case True
    then show ?thesis using Cons b by simp
  next
    case False
    note nlo = this
    show ?thesis
    proof (cases "j \<ge> bhi")
      case True
      then show ?thesis using Cons.prems nlo b by (auto simp: in_range_def split: prod.splits)
    next
      case False
      let ?k = "j2len_get j2len j + 1"
      let ?best = "if ?k > bs then (i + 1 - ?k, j + 1 - ?k, ?k) else (bi, bj, bs)"
      have step: "flm_inner i blo bhi j2len js (nj(j \<mapsto> ?k), ?best) = (nj', best')"
        using Cons.prems(1) nlo False b by (simp add: Let_def split del: if_split cong: if_cong)
      have nj: "\<And>j' v. (nj(j \<mapsto> ?k)) j' = Some v \<Longrightarrow> v + alo \<le> i + 1"
        using Cons.prems(3) k by (auto split: if_splits)
      have rng: "in_range alo i ?best \<or> in_range alo (i + 1) ?best"
        using Cons.prems(4) k b by (auto simp: in_range_def)
      show ?thesis
        by (rule Cons.IH[OF step Cons.prems(2) nj rng Cons.prems(5)])
    qed
  qed
qed


lemma in_range_mono: "in_range alo i m \<Longrightarrow> i \<le> i' \<Longrightarrow> in_range alo i' m"
  by (auto simp: in_range_def)

lemma flm_outer_inv:
  assumes "\<And>j v. j2len j = Some v \<Longrightarrow> v + alo \<le> lo"
    and "in_range alo lo best" and "alo \<le> lo"
  shows "in_range alo (lo + n) (flm_outer a b2j blo bhi [lo..<lo + n] j2len best)"
  using assms
proof (induction n arbitrary: lo j2len best)
  case 0
  then show ?case by simp
next
  case (Suc n)
  have upt: "[lo..<lo + Suc n] = lo # [Suc lo..<Suc lo + n]"
    by (simp add: upt_conv_Cons)
  obtain nj best' where
    inner: "flm_inner lo blo bhi j2len (b2j_get b2j (a ! lo)) (Map.empty, best) = (nj, best')"
    by (cases "flm_inner lo blo bhi j2len (b2j_get b2j (a ! lo)) (Map.empty, best)")
  have inv: "(\<forall>j v. nj j = Some v \<longrightarrow> v + alo \<le> lo + 1) \<and> in_range alo (lo + 1) best'"
    by (rule flm_inner_inv[OF inner]) (use Suc.prems in auto)
  have "in_range alo (Suc lo + n) (flm_outer a b2j blo bhi [Suc lo..<Suc lo + n] nj best')"
    by (rule Suc.IH) (use inv Suc.prems in auto)
  moreover have "flm_outer a b2j blo bhi [lo..<lo + Suc n] j2len best
      = flm_outer a b2j blo bhi [Suc lo..<Suc lo + n] nj best'"
    unfolding upt by (simp add: inner del: upt_Suc)
  ultimately show ?case by simp
qed

lemma extend_left_inv:
  "in_range alo ahi m \<Longrightarrow> in_range alo ahi (extend_left want a b alo blo m)"
proof (induction want a b alo blo m rule: extend_left.induct)
  case (1 want a b alo blo besti bestj bestsize)
  show ?case
  proof (cases "besti > alo \<and> bestj > blo \<and> want (b ! (bestj - 1)) \<and> a ! (besti - 1) = b ! (bestj - 1)")
    case True
    have "in_range alo ahi (besti - 1, bestj - 1, bestsize + 1)"
      using "1.prems" True by (auto simp: in_range_def)
    then have "in_range alo ahi (extend_left want a b alo blo (besti - 1, bestj - 1, bestsize + 1))"
      using "1.IH" True by blast
    then show ?thesis
      using True by (subst extend_left.simps) simp
  next
    case False
    then show ?thesis
      using "1.prems" by (subst extend_left.simps) auto
  qed
qed

lemma extend_right_inv:
  "in_range alo ahi m \<Longrightarrow> in_range alo ahi (extend_right want a b ahi bhi m)"
proof (induction want a b ahi bhi m rule: extend_right.induct)
  case (1 want a b ahi bhi besti bestj bestsize)
  show ?case
  proof (cases "besti + bestsize < ahi \<and> bestj + bestsize < bhi \<and> want (b ! (bestj + bestsize))
         \<and> a ! (besti + bestsize) = b ! (bestj + bestsize)")
    case True
    have "in_range alo ahi (besti, bestj, bestsize + 1)"
      using "1.prems" True by (auto simp: in_range_def)
    then have "in_range alo ahi (extend_right want a b ahi bhi (besti, bestj, bestsize + 1))"
      using "1.IH" True by blast
    then show ?thesis
      using True by (subst extend_right.simps) simp
  next
    case False
    then show ?thesis
      using "1.prems" by (subst extend_right.simps) auto
  qed
qed

lemma find_longest_match_in_range:
  "in_range alo ahi (find_longest_match a b b2j isbjunk alo ahi blo bhi)"
proof (cases "alo \<le> ahi")
  case True
  then obtain n where n: "ahi = alo + n"
    using le_Suc_ex by blast
  have "in_range alo (alo + n) (flm_outer a b2j blo bhi [alo..<alo + n] Map.empty (alo, blo, 0))"
    by (rule flm_outer_inv) (auto simp: in_range_def)
  then show ?thesis
    unfolding find_longest_match_def Let_def n
    by (intro extend_right_inv extend_left_inv)
next
  case False
  then have "flm_outer a b2j blo bhi [alo..<ahi] Map.empty (alo, blo, 0) = (alo, blo, 0)"
    by simp
  then have "in_range alo ahi (flm_outer a b2j blo bhi [alo..<ahi] Map.empty (alo, blo, 0))"
    by (simp add: in_range_def)
  then show ?thesis
    unfolding find_longest_match_def Let_def
    by (intro extend_right_inv extend_left_inv)
qed

lemma find_longest_match_bounds:
  "find_longest_match a b b2j isbjunk alo ahi blo bhi = (i, j, k) \<Longrightarrow> k \<noteq> 0 \<Longrightarrow>
     alo \<le> i \<and> i + k \<le> ahi"
  using find_longest_match_in_range[of alo ahi a b b2j isbjunk blo bhi]
  by (simp add: in_range_def)

text \<open>
  \<^verbatim>\<open>get_matching_blocks\<close>. The queue of ranges \<open>(alo, ahi, blo, bhi)\<close> is a stack whose
  top is the head of the list: \<^verbatim>\<open>queue.pop()\<close> takes the range appended last. The weight
  of a queue decreases at every step of the loop.
\<close>

type_synonym span = "nat \<times> nat \<times> nat \<times> nat"

definition queue_weight :: "span list \<Rightarrow> nat" where
  "queue_weight q = sum_list (map (\<lambda>(alo, ahi, blo, bhi). 2 * (ahi - alo) + 1) q)"

lemma matching_blocks_loop_decreases:
  assumes "find_longest_match a b b2j isbjunk alo ahi blo bhi = (i, j, k)" and "k \<noteq> 0"
  shows "queue_weight ((if i + k < ahi \<and> j + k < bhi then [(i + k, ahi, j + k, bhi)] else [])
               @ (if alo < i \<and> blo < j then [(alo, i, blo, j)] else []) @ queue)
         < queue_weight ((alo, ahi, blo, bhi) # queue)"
proof -
  have "alo \<le> i \<and> i + k \<le> ahi"
    using assms by (rule find_longest_match_bounds)
  then show ?thesis
    using assms(2) by (auto simp: queue_weight_def)
qed

function matching_blocks_loop ::
  "'a list \<Rightarrow> 'a list \<Rightarrow> ('a \<times> nat list) list \<Rightarrow> ('a \<Rightarrow> bool) \<Rightarrow> span list \<Rightarrow> match list \<Rightarrow> match list" where
  "matching_blocks_loop a b b2j isbjunk [] matching_blocks = matching_blocks"
| "matching_blocks_loop a b b2j isbjunk ((alo, ahi, blo, bhi) # queue) matching_blocks =
     (case find_longest_match a b b2j isbjunk alo ahi blo bhi of
        (i, j, k) \<Rightarrow>
          if k \<noteq> 0 then
            matching_blocks_loop a b b2j isbjunk
              ((if i + k < ahi \<and> j + k < bhi then [(i + k, ahi, j + k, bhi)] else [])
               @ (if alo < i \<and> blo < j then [(alo, i, blo, j)] else [])
               @ queue)
              (matching_blocks @ [(i, j, k)])
          else matching_blocks_loop a b b2j isbjunk queue matching_blocks)"
  by pat_completeness auto
termination
proof (relation "measure (\<lambda>(a, b, b2j, isbjunk, queue, matching_blocks). queue_weight queue)", goal_cases)
  case 1
  show ?case by simp
next
  case (2 a b b2j isbjunk alo ahi blo bhi queue matching_blocks i y j k)
  then have "find_longest_match a b b2j isbjunk alo ahi blo bhi = (i, j, k)" "k \<noteq> 0"
    by auto
  from matching_blocks_loop_decreases[OF this]
  show ?case by simp
next
  case 3
  show ?case by (simp add: queue_weight_def)
qed

text \<open>
  The loop over the sorted blocks that merges adjacent ones, with the pending block
  \<open>(i1, j1, k1)\<close> as its state and the final \<^verbatim>\<open>if k1: non_adjacent.append(...)\<close> at the
  end of the list; then the dummy block \<open>(la, lb, 0)\<close> is appended.
\<close>

fun collapse_adjacent :: "match \<Rightarrow> match list \<Rightarrow> match list" where
  "collapse_adjacent (i1, j1, k1) [] = (if k1 \<noteq> 0 then [(i1, j1, k1)] else [])"
| "collapse_adjacent (i1, j1, k1) ((i2, j2, k2) # rest) =
     (if i1 + k1 = i2 \<and> j1 + k1 = j2 then collapse_adjacent (i1, j1, k1 + k2) rest
      else (if k1 \<noteq> 0 then [(i1, j1, k1)] else []) @ collapse_adjacent (i2, j2, k2) rest)"

definition get_matching_blocks :: "'a list \<Rightarrow> 'a list \<Rightarrow> match list" where
  "get_matching_blocks a b =
     (let la = length a; lb = length b;
          matching_blocks = matching_blocks_loop a b (chain_b b) (\<lambda>x. False) [(0, la, 0, lb)] [];
          non_adjacent = collapse_adjacent (0, 0, 0) (sort matching_blocks)
      in non_adjacent @ [(la, lb, 0)])"

text \<open>\<^verbatim>\<open>_calculate_ratio\<close> and \<^verbatim>\<open>ratio\<close>: \<open>2.0 * matches / length\<close>, or 1.0 for two empty sequences.\<close>

definition calculate_ratio :: "nat \<Rightarrow> nat \<Rightarrow> rat" where
  "calculate_ratio matches len = (if len \<noteq> 0 then 2 * of_nat matches / of_nat len else 1)"

definition ratio :: "'a list \<Rightarrow> 'a list \<Rightarrow> rat" where
  "ratio a b =
     calculate_ratio (sum_list (map (\<lambda>(i, j, k). k) (get_matching_blocks a b)))
       (length a + length b)"

subsection \<open>Text-mode reading (io.TextIOWrapper with newline=None)\<close>

text \<open>
  Universal newlines: \<^verbatim>\<open>output.replace("\r\n", "\n")\<close>, then
  \<^verbatim>\<open>output.replace("\r", "\n")\<close>.
\<close>

fun replace_crlf :: "nat list \<Rightarrow> nat list" where
  "replace_crlf (x # y # s) =
     (if x = 13 \<and> y = 10 then 10 # replace_crlf s else x # replace_crlf (y # s))"
| "replace_crlf s = s"

definition translate_newlines :: "nat list \<Rightarrow> nat list" where
  "translate_newlines output = map (\<lambda>c. if c = 13 then 10 else c) (replace_crlf output)"

text \<open>
  \<^verbatim>\<open>IncrementalNewlineDecoder.decode\<close> after the UTF-8 decoder has produced
  \<open>output\<close>: a carriage return held back from the previous chunk is put in front, a
  trailing one is held back unless the input is final, and the rest is translated.
  The result is the text and the new \<^verbatim>\<open>pendingcr\<close>.
\<close>

definition newline_decode :: "bool \<Rightarrow> nat list \<Rightarrow> bool \<Rightarrow> nat list \<times> bool" where
  "newline_decode pendingcr output final =
     (let output1 = (if pendingcr \<and> (final \<or> output \<noteq> []) then 13 # output else output);
          pendingcr1 = (if pendingcr \<and> (final \<or> output \<noteq> []) then False else pendingcr);
          held = (output1 \<noteq> [] \<and> last output1 = 13 \<and> \<not> final);
          output2 = (if held then butlast output1 else output1);
          pendingcr2 = (if held then True else pendingcr1)
      in (translate_newlines output2, pendingcr2))"

text \<open>
  \<^verbatim>\<open>f.read()\<close> on a file opened with \<^verbatim>\<open>errors='ignore'\<close>: the whole content is
  decoded at once, as final input.
\<close>

definition read_text_ignore :: "byte list \<Rightarrow> nat list" where
  "read_text_ignore content = fst (newline_decode False (utf8_decode_ignore content) True)"

text \<open>
  \<^verbatim>\<open>f.read(size)\<close> with \<open>size = sz \<ge> 0\<close> on a file opened with the default
  \<^verbatim>\<open>errors='strict'\<close>: chunks of \<open>chunk_size\<close> bytes are read and decoded, each whole, until
  \<open>sz\<close> characters are there or a read returns no bytes, which is the end of the file
  and makes the decoder's input final. \<open>None\<close> is the \<^verbatim>\<open>UnicodeDecodeError\<close>. The
  arguments of the loop are the bytes not yet read, the bytes the decoder holds, the
  newline decoder's flag and the characters collected so far.
\<close>

definition chunk_size :: nat where
  "chunk_size = 8192"

function read_chunks ::
  "nat \<Rightarrow> byte list \<Rightarrow> byte list \<Rightarrow> bool \<Rightarrow> nat list \<Rightarrow> nat list option" where
  "read_chunks sz unread pending pendingcr result =
     (let input_chunk = take chunk_size unread;
          eof = (input_chunk = [])
      in case utf8_decode_strict eof (pending @ input_chunk) of
           None \<Rightarrow> None
         | Some (output, pending') \<Rightarrow>
             (case newline_decode pendingcr output eof of
                (decoded_chars, pendingcr') \<Rightarrow>
                  (let result' = result @ take (sz - length result) decoded_chars
                   in if length result' < sz \<and> \<not> eof
                      then read_chunks sz (drop chunk_size unread) pending' pendingcr' result'
                      else Some result')))"
  by pat_completeness auto
termination
  by (relation "measure (\<lambda>(sz, unread, pending, pendingcr, result). length unread)")
     (auto simp: chunk_size_def)

declare read_chunks.simps [simp del]

definition text_read :: "nat \<Rightarrow> byte list \<Rightarrow> nat list option" where
  "text_read sz content = (if 0 < sz then read_chunks sz content [] False [] else Some [])"

subsection \<open>The environment\<close>

text \<open>
  What the file system answers at a path: \<open>getsize\<close> is \<^verbatim>\<open>os.path.getsize\<close> (\<open>None\<close>
  when it raises \<^verbatim>\<open>OSError\<close>), \<open>read_file\<close> the bytes that \<^verbatim>\<open>open\<close> and reading
  to the end give (\<open>None\<close> when either raises), \<open>walk\<close> the pairs of directory path and
  file names that \<^verbatim>\<open>os.walk\<close> yields, in its order.
\<close>

record filesys =
  getsize :: "string \<Rightarrow> nat option"
  read_file :: "string \<Rightarrow> byte list option"
  walk :: "string \<Rightarrow> (string \<times> string list) list"

text \<open>
  Library calls that are tables, digests or depend on the process: \<open>guess_type\<close> is the
  first component of \<^verbatim>\<open>mimetypes.guess_type\<close>; \<open>sha256_hexdigest\<close> the hexadecimal
  SHA-256 of the bytes fed block by block; \<open>abspath\<close> and \<open>relpath\<close> are those of
  \<^verbatim>\<open>os.path\<close>; \<open>str_hash\<close> is \<^verbatim>\<open>str(hash(s))\<close>; \<open>extractall\<close> is
  \<^verbatim>\<open>os.makedirs\<close> followed by \<^verbatim>\<open>zipfile.ZipFile(...).extractall(...)\<close>, with the
  file system it leaves and whether it completed without an exception; \<open>mkdtemp\<close>
  creates the directory of \<^verbatim>\<open>tempfile.TemporaryDirectory()\<close> (\<open>None\<close> when that raises);
  \<open>format_percent\<close> is the format specification \<^verbatim>\<open>.1%\<close>.
\<close>

record pylib =
  guess_type :: "string \<Rightarrow> string option"
  sha256_hexdigest :: "byte list \<Rightarrow> string"
  abspath :: "string \<Rightarrow> string"
  relpath :: "string \<Rightarrow> string \<Rightarrow> string"
  str_hash :: "string \<Rightarrow> string"
  extractall :: "filesys \<Rightarrow> string \<Rightarrow> string \<Rightarrow> bool \<times> filesys"
  mkdtemp :: "filesys \<Rightarrow> (string \<times> filesys) option"
  format_percent :: "rat \<Rightarrow> string"

subsection \<open>FileAnalyzer\<close>

text \<open>\<^verbatim>\<open>get_file_hash\<close>: the digest, or \<open>None\<close> when reading raised.\<close>

definition get_file_hash :: "pylib \<Rightarrow> filesys \<Rightarrow> string \<Rightarrow> string option" where
  "get_file_hash lib fs filepath =
     (case read_file fs filepath of
        None \<Rightarrow> None
      | Some content \<Rightarrow> Some (sha256_hexdigest lib content))"

text \<open>
  \<^verbatim>\<open>is_text_file\<close>: true when the guessed MIME type starts with \<^verbatim>\<open>text\<close>
  (\<open>guess_is_text\<close> is the test \<^verbatim>\<open>guess and guess.startswith('text')\<close>); else
  whether opening the file as UTF-8 text and reading 512 characters raises nothing.
\<close>

definition guess_is_text :: "pylib \<Rightarrow> string \<Rightarrow> bool" where
  "guess_is_text lib filepath =
     (case guess_type lib filepath of
        None \<Rightarrow> False
      | Some guess \<Rightarrow> guess \<noteq> [] \<and> startswith guess ''text'')"

definition is_text_file :: "pylib \<Rightarrow> filesys \<Rightarrow> string \<Rightarrow> bool" where
  "is_text_file lib fs filepath =
     (if guess_is_text lib filepath then True
      else
        (case read_file fs filepath of
           None \<Rightarrow> False
         | Some content \<Rightarrow>
             (case text_read 512 content of None \<Rightarrow> False | Some _ \<Rightarrow> True)))"

text \<open>\<^verbatim>\<open>get_text_similarity\<close>: the ratio of the two texts, or 0.0 when a read raised.\<close>

definition get_text_similarity :: "pylib \<Rightarrow> filesys \<Rightarrow> string \<Rightarrow> string \<Rightarrow> rat" where
  "get_text_similarity lib fs file1 file2 =
     (case read_file fs file1 of
        None \<Rightarrow> 0
      | Some content1 \<Rightarrow>
          (case read_file fs file2 of
             None \<Rightarrow> 0
           | Some content2 \<Rightarrow> ratio (read_text_ignore content1) (read_text_ignore content2)))"

text \<open>
  A PathMap is a Python dictionary from relative path to file location: an association
  list in insertion order; \<^verbatim>\<open>file_map[k] = v\<close> is \<open>AList.update\<close>, \<^verbatim>\<open>k in file_map\<close> and
  \<^verbatim>\<open>file_map.get(k)\<close> are \<open>map_of\<close>.
\<close>

type_synonym pathmap = "(string \<times> string) list"

definition archive_exts :: "string list" where
  "archive_exts = [''.zip'', ''.ipa'', ''.apk'', ''.jar'']"

fun walk_files :: "pylib \<Rightarrow> string \<Rightarrow> string \<Rightarrow> string list \<Rightarrow> pathmap \<Rightarrow> pathmap" where
  "walk_files lib scan_root dirpath [] file_map = file_map"
| "walk_files lib scan_root dirpath (file # files) file_map =
     (let full_path = path_join dirpath file;
          rel_path = replace_char (CHR 0x5C) (CHR ''/'') (relpath lib full_path scan_root)
      in walk_files lib scan_root dirpath files (AList.update rel_path full_path file_map))"

fun walk_dirs :: "pylib \<Rightarrow> string \<Rightarrow> (string \<times> string list) list \<Rightarrow> pathmap \<Rightarrow> pathmap" where
  "walk_dirs lib scan_root [] file_map = file_map"
| "walk_dirs lib scan_root ((dirpath, files) # rest) file_map =
     walk_dirs lib scan_root rest (walk_files lib scan_root dirpath files file_map)"

text \<open>
  \<^verbatim>\<open>extract_or_walk\<close>, with the file system that an extraction leaves;
  \<open>extract_path\<close> is the directory under \<open>temp_dir\<close> that it extracts into. The message
  printed when the extraction fails is not modelled.
\<close>

definition extract_path :: "pylib \<Rightarrow> string \<Rightarrow> string \<Rightarrow> string" where
  "extract_path lib temp_dir target_path =
     path_join temp_dir
       (''extracted_'' @ basename target_path @ ''_'' @ str_hash lib target_path)"

definition extract_or_walk :: "pylib \<Rightarrow> filesys \<Rightarrow> string \<Rightarrow> string \<Rightarrow> pathmap \<times> filesys" where
  "extract_or_walk lib fs target_path temp_dir =
     (let ext = lower (snd (splitext target_path));
          is_archive = (ext \<in> set archive_exts)
      in if is_archive then
           (case extractall lib fs target_path (extract_path lib temp_dir target_path) of
              (completed, fs') \<Rightarrow>
                if completed then
                  (walk_dirs lib (abspath lib (extract_path lib temp_dir target_path))
                     (walk fs' (abspath lib (extract_path lib temp_dir target_path))) [], fs')
                else ([], fs'))
         else
           (walk_dirs lib (abspath lib target_path) (walk fs (abspath lib target_path)) [], fs))"

text \<open>The records of the result: \<^verbatim>\<open>result["summary"]\<close> and the items of \<^verbatim>\<open>result["details"]\<close>.\<close>

record summary =
  same :: nat
  diff :: nat
  added :: nat
  deleted :: nat
  total :: nat

record item =
  path :: string
  status :: string
  similarity :: rat
  similarity_str :: string
  size_a :: int
  size_b :: int
  size_diff :: int
  type_category :: string

record result =
  summary :: summary
  details :: "item list"

datatype error = TempDirError | OSError string

text \<open>
  The labels of the source that are not ASCII, as UTF-8 bytes:
  U+76F8 U+540C, U+5DEE U+5F02, U+5DF2 U+5220 U+9664, U+65B0 U+589E and
  \<^verbatim>\<open>Hash\<close> U+4E0D U+540C.
\<close>

definition status_same :: string where
  "status_same = [CHR 0xE7, CHR 0x9B, CHR 0xB8, CHR 0xE5, CHR 0x90, CHR 0x8C]"

definition status_diff :: string where
  "status_diff = [CHR 0xE5, CHR 0xB7, CHR 0xAE, CHR 0xE5, CHR 0xBC, CHR 0x82]"

definition status_deleted :: string where
  "status_deleted =
     [CHR 0xE5, CHR 0xB7, CHR 0xB2, CHR 0xE5, CHR 0x88, CHR 0xA0, CHR 0xE9, CHR 0x99, CHR 0xA4]"

definition status_added :: string where
  "status_added = [CHR 0xE6, CHR 0x96, CHR 0xB0, CHR 0xE5, CHR 0xA2, CHR 0x9E]"

definition hash_differs :: string where
  "hash_differs = ''Hash'' @ [CHR 0xE4, CHR 0xB8, CHR 0x8D, CHR 0xE5, CHR 0x90, CHR 0x8C]"

definition new_item :: "string \<Rightarrow> item" where
  "new_item rel_path =
     \<lparr>path = rel_path, status = [], similarity = 0, similarity_str = ''0%'',
      size_a = 0, size_b = 0, size_diff = 0, type_category = ''unknown''\<rparr>"

text \<open>\<^verbatim>\<open>os.path.getsize(p)\<close> under \<^verbatim>\<open>if in_x:\<close>; \<open>None\<close> is a path that is not in the map.\<close>

definition size_of :: "filesys \<Rightarrow> string option \<Rightarrow> error + int" where
  "size_of fs p =
     (case p of
        None \<Rightarrow> Inr 0
      | Some q \<Rightarrow> (case getsize fs q of None \<Rightarrow> Inl (OSError q) | Some n \<Rightarrow> Inr (int n)))"

text \<open>
  The branches of the loop body after the sizes are known: \<open>p_a\<close> and \<open>p_b\<close> are
  \<^verbatim>\<open>files_a.get(rel_path)\<close> and \<^verbatim>\<open>files_b.get(rel_path)\<close>, and being \<open>Some\<close> is
  \<^verbatim>\<open>in_a\<close> and \<^verbatim>\<open>in_b\<close>.
\<close>

definition classify ::
  "pylib \<Rightarrow> filesys \<Rightarrow> string option \<Rightarrow> string option \<Rightarrow> item \<Rightarrow> summary \<Rightarrow> item \<times> summary" where
  "classify lib fs p_a p_b item0 s =
     (case (p_a, p_b) of
        (Some pa, Some pb) \<Rightarrow>
          (let item1 = item0\<lparr>size_diff := size_b item0 - size_a item0\<rparr>;
               hash_a = get_file_hash lib fs pa;
               hash_b = get_file_hash lib fs pb
           in if hash_a = hash_b then
                (item1\<lparr>status := status_same, type_category := ''same'',
                       similarity := 1, similarity_str := ''100%''\<rparr>,
                 s\<lparr>same := same s + 1\<rparr>)
              else
                (let item2 = item1\<lparr>status := status_diff, type_category := ''diff''\<rparr>;
                     s' = s\<lparr>diff := diff s + 1\<rparr>
                 in if is_text_file lib fs pa \<and> is_text_file lib fs pb then
                      (let sim = get_text_similarity lib fs pa pb
                       in (item2\<lparr>similarity := sim, similarity_str := format_percent lib sim\<rparr>, s'))
                    else (item2\<lparr>similarity := 0, similarity_str := hash_differs\<rparr>, s')))
      | (Some pa, None) \<Rightarrow>
          (item0\<lparr>status := status_deleted, type_category := ''deleted'',
                 size_diff := - size_a item0\<rparr>,
           s\<lparr>deleted := deleted s + 1\<rparr>)
      | (None, Some pb) \<Rightarrow>
          (item0\<lparr>status := status_added, type_category := ''added'',
                 size_diff := size_b item0\<rparr>,
           s\<lparr>added := added s + 1\<rparr>)
      | (None, None) \<Rightarrow> (item0, s))"

text \<open>One pass of the loop body for \<open>rel_path\<close>: the item and the summary after it.\<close>

definition compare_item ::
  "pylib \<Rightarrow> filesys \<Rightarrow> pathmap \<Rightarrow> pathmap \<Rightarrow> summary \<Rightarrow> string \<Rightarrow> error + item \<times> summary" where
  "compare_item lib fs files_a files_b s rel_path =
     (let p_a = map_of files_a rel_path;
          p_b = map_of files_b rel_path
      in case size_of fs p_a of
           Inl e \<Rightarrow> Inl e
         | Inr sa \<Rightarrow>
             (case size_of fs p_b of
                Inl e \<Rightarrow> Inl e
              | Inr sb \<Rightarrow>
                  Inr (classify lib fs p_a p_b
                         ((new_item rel_path)\<lparr>size_a := sa, size_b := sb\<rparr>) s)))"

text \<open>The loop over the sorted keys; an exception of a pass ends it.\<close>

fun compare_loop ::
  "pylib \<Rightarrow> filesys \<Rightarrow> pathmap \<Rightarrow> pathmap \<Rightarrow> string list \<Rightarrow> result \<Rightarrow> error + result" where
  "compare_loop lib fs files_a files_b [] r = Inr r"
| "compare_loop lib fs files_a files_b (rel_path # keys) r =
     (case compare_item lib fs files_a files_b (summary r) rel_path of
        Inl e \<Rightarrow> Inl e
      | Inr (it, s) \<Rightarrow>
          compare_loop lib fs files_a files_b keys \<lparr>summary = s, details = details r @ [it]\<rparr>)"

definition all_keys :: "pathmap \<Rightarrow> pathmap \<Rightarrow> string set" where
  "all_keys files_a files_b = set (map fst files_a) \<union> set (map fst files_b)"

definition empty_result :: result where
  "empty_result =
     \<lparr>summary = \<lparr>same = 0, diff = 0, added = 0, deleted = 0, total = 0\<rparr>, details = []\<rparr>"

text \<open>
  The part of \<^verbatim>\<open>compare\<close> after the two maps are built, on the file system the
  extractions left.
\<close>

definition compare_maps :: "pylib \<Rightarrow> filesys \<Rightarrow> pathmap \<Rightarrow> pathmap \<Rightarrow> error + result" where
  "compare_maps lib fs files_a files_b =
     (let total_files = card (all_keys files_a files_b)
      in case compare_loop lib fs files_a files_b
                (sorted_list_of_set (all_keys files_a files_b)) empty_result of
           Inl e \<Rightarrow> Inl e
         | Inr r \<Rightarrow> Inr (r\<lparr>summary := (summary r)\<lparr>total := total_files\<rparr>\<rparr>))"

text \<open>
  \<^verbatim>\<open>compare(path_a, path_b)\<close>, called without a progress callback (the callback only
  receives messages and returns nothing that is used).
\<close>

definition compare :: "pylib \<Rightarrow> filesys \<Rightarrow> string \<Rightarrow> string \<Rightarrow> error + result" where
  "compare lib fs path_a path_b =
     (case mkdtemp lib fs of
        None \<Rightarrow> Inl TempDirError
      | Some (temp_root, fs0) \<Rightarrow>
          (case extract_or_walk lib fs0 path_a temp_root of
             (files_a, fs1) \<Rightarrow>
               (case extract_or_walk lib fs1 path_b temp_root of
                  (files_b, fs2) \<Rightarrow> compare_maps lib fs2 files_a files_b)))"

section \<open>Notions used to state the properties\<close>

text \<open>
  The number of records of a category, the four categories of a finished record, and
  the agreement of the summary's counters with the records.
\<close>

definition count_category :: "string \<Rightarrow> item list \<Rightarrow> nat" where
  "count_category c its = length (filter (\<lambda>it. type_category it = c) its)"

definition category_known :: "item \<Rightarrow> bool" where
  "category_known it = (type_category it \<in> set [''same'', ''diff'', ''added'', ''deleted''])"

definition counts_agree :: "result \<Rightarrow> bool" where
  "counts_agree r =
     (same (summary r) = count_category ''same'' (details r)
      \<and> diff (summary r) = count_category ''diff'' (details r)
      \<and> added (summary r) = count_category ''added'' (details r)
      \<and> deleted (summary r) = count_category ''deleted'' (details r))"


text \<open>
  A percentage string (digits and a decimal point, then a percent sign), and what the
  loop body writes into the similarity fields of a record of each category.
\<close>

definition is_percentage :: "string \<Rightarrow> bool" where
  "is_percentage s =
     (case rev s of
        [] \<Rightarrow> False
      | c # ds \<Rightarrow> c = CHR ''%'' \<and> ds \<noteq> [] \<and> list_all (\<lambda>d. d \<in> set ''0123456789.'') ds)"

definition label_as_coded :: "pylib \<Rightarrow> filesys \<Rightarrow> pathmap \<Rightarrow> pathmap \<Rightarrow> item \<Rightarrow> bool" where
  "label_as_coded lib fs files_a files_b it =
     (if type_category it = ''same'' then similarity it = 1 \<and> similarity_str it = ''100%''
      else if type_category it = ''diff'' then
        (case (map_of files_a (path it), map_of files_b (path it)) of
           (Some pa, Some pb) \<Rightarrow>
             if is_text_file lib fs pa \<and> is_text_file lib fs pb
             then similarity it = get_text_similarity lib fs pa pb
                  \<and> similarity_str it = format_percent lib (similarity it)
             else similarity it = 0 \<and> similarity_str it = hash_differs
         | _ \<Rightarrow> False)
      else if type_category it = ''added'' \<or> type_category it = ''deleted''
      then similarity it = 0 \<and> similarity_str it = ''0%''
      else False)"

text \<open>
  Every location of a PathMap has a size that can be read; an archive whose extraction
  raises; and a result all of whose records have one category, one record per key of the
  map.
\<close>

definition sizes_known :: "filesys \<Rightarrow> pathmap \<Rightarrow> bool" where
  "sizes_known fs files = list_all (\<lambda>(k, p). getsize fs p \<noteq> None) files"

definition extraction_fails :: "pylib \<Rightarrow> filesys \<Rightarrow> string \<Rightarrow> string \<Rightarrow> bool" where
  "extraction_fails lib fs target_path temp_dir =
     (lower (snd (splitext target_path)) \<in> set archive_exts
      \<and> \<not> fst (extractall lib fs target_path (extract_path lib temp_dir target_path)))"

definition one_sided :: "string \<Rightarrow> pathmap \<Rightarrow> result \<Rightarrow> bool" where
  "one_sided category files r =
     (map path (details r) = sorted_list_of_set (set (map fst files))
      \<and> list_all (\<lambda>it. type_category it = category) (details r)
      \<and> count_category category (details r) = card (set (map fst files))
      \<and> total (summary r) = card (set (map fst files))
      \<and> same (summary r) = 0 \<and> diff (summary r) = 0
      \<and> added (summary r) = (if category = ''added'' then card (set (map fst files)) else 0)
      \<and> deleted (summary r) = (if category = ''deleted'' then card (set (map fst files)) else 0))"


subsection \<open>An environment for the examples\<close>

text \<open>
  Two directories \<^verbatim>\<open>/A\<close> and \<^verbatim>\<open>/B\<close>. In the library record an injective function
  stands for SHA-256, the MIME table knows \<^verbatim>\<open>.txt\<close>, paths are absolute already, every
  extraction fails, and \<open>demo_format_percent\<close> rounds to one decimal of a percentage.
\<close>

function show_nat :: "nat \<Rightarrow> string" where
  "show_nat n =
     (if n < 10 then [char_of (48 + n)] else show_nat (n div 10) @ [char_of (48 + n mod 10)])"
  by pat_completeness auto
termination
  by (relation "measure id") auto

declare show_nat.simps [simp del]

definition demo_format_percent :: "rat \<Rightarrow> string" where
  "demo_format_percent r =
     (let n = nat (round (r * 1000))
      in show_nat (n div 10) @ ''.'' @ show_nat (n mod 10) @ ''%'')"

definition ascii :: "string \<Rightarrow> byte list" where
  "ascii s = map of_char s"

definition demo_files :: "(string \<times> byte list) list" where
  "demo_files =
     [(''/A/same.txt'', ascii ''hello''),
      (''/A/mod.txt'', ascii ''tide''),
      (''/A/gone.bin'', [0xFF, 0x00]),
      (''/A/sub/blob.dat'', [0xFF, 0x01, 0x02]),
      (''/B/same.txt'', ascii ''hello''),
      (''/B/mod.txt'', ascii ''diet''),
      (''/B/new.txt'', ascii ''x''),
      (''/B/sub/blob.dat'', [0xFF, 0x01])]"

definition demo_fs :: filesys where
  "demo_fs =
     \<lparr>getsize = (\<lambda>p. map_option length (map_of demo_files p)),
      read_file = map_of demo_files,
      walk = (\<lambda>top.
        if top = ''/A'' then [(''/A'', [''same.txt'', ''mod.txt'', ''gone.bin'']), (''/A/sub'', [''blob.dat''])]
        else if top = ''/B'' then [(''/B'', [''new.txt'', ''same.txt'', ''mod.txt'']), (''/B/sub'', [''blob.dat''])]
        else [])\<rparr>"

definition demo_lib :: pylib where
  "demo_lib =
     \<lparr>guess_type = (\<lambda>p. if endswith p ''.txt'' then Some ''text/plain'' else None),
      sha256_hexdigest = (\<lambda>content. map (\<lambda>b. char_of (unat b)) content),
      abspath = (\<lambda>p. p),
      relpath = (\<lambda>p start. drop (length start + 1) p),
      str_hash = (\<lambda>s. ''7''),
      extractall = (\<lambda>fs target dest. (False, fs)),
      mkdtemp = (\<lambda>fs. Some (''/tmp/scratch'', fs)),
      format_percent = demo_format_percent\<rparr>"

definition demo_files_a :: pathmap where
  "demo_files_a =
     [(''same.txt'', ''/A/same.txt''), (''mod.txt'', ''/A/mod.txt''),
      (''gone.bin'', ''/A/gone.bin''), (''sub/blob.dat'', ''/A/sub/blob.dat'')]"

definition demo_files_b :: pathmap where
  "demo_files_b =
     [(''new.txt'', ''/B/new.txt''), (''same.txt'', ''/B/same.txt''),
      (''mod.txt'', ''/B/mod.txt''), (''sub/blob.dat'', ''/B/sub/blob.dat'')]"

definition demo_result :: result where
  "demo_result =
     \<lparr>summary = \<lparr>same = 1, diff = 2, added = 1, deleted = 1, total = 5\<rparr>,
      details =
        [\<lparr>path = ''gone.bin'', status = status_deleted, similarity = 0,
          similarity_str = ''0%'', size_a = 2, size_b = 0, size_diff = - 2,
          type_category = ''deleted''\<rparr>,
         \<lparr>path = ''mod.txt'', status = status_diff, similarity = 1 / 4,
          similarity_str = ''25.0%'', size_a = 4, size_b = 4, size_diff = 0,
          type_category = ''diff''\<rparr>,
         \<lparr>path = ''new.txt'', status = status_added, similarity = 0,
          similarity_str = ''0%'', size_a = 0, size_b = 1, size_diff = 1,
          type_category = ''added''\<rparr>,
         \<lparr>path = ''same.txt'', status = status_same, similarity = 1,
          similarity_str = ''100%'', size_a = 5, size_b = 5, size_diff = 0,
          type_category = ''same''\<rparr>,
         \<lparr>path = ''sub/blob.dat'', status = status_diff, similarity = 0,
          similarity_str = hash_differs, size_a = 3, size_b = 2, size_diff = - 1,
          type_category = ''diff''\<rparr>]\<rparr>"

text \<open>
  Two files at the same relative path that exist but cannot be opened (sizes 3 and 5),
  and a directory whose listing has a name that cannot be inspected (a symbolic link to
  nothing).
\<close>

definition locked_fs :: filesys where
  "locked_fs =
     \<lparr>getsize = map_of [(''/A/f.bin'', 3), (''/B/f.bin'', 5)],
      read_file = (\<lambda>p. None),
      walk = (\<lambda>top.
        if top = ''/A'' then [(''/A'', [''f.bin''])]
        else if top = ''/B'' then [(''/B'', [''f.bin''])]
        else [])\<rparr>"

definition locked_result :: result where
  "locked_result =
     \<lparr>summary = \<lparr>same = 1, diff = 0, added = 0, deleted = 0, total = 1\<rparr>,
      details =
        [\<lparr>path = ''f.bin'', status = status_same, similarity = 1,
          similarity_str = ''100%'', size_a = 3, size_b = 5, size_diff = 2,
          type_category = ''same''\<rparr>]\<rparr>"

definition dangling_fs :: filesys where
  "dangling_fs =
     \<lparr>getsize = map_of [(''/B/ok.txt'', 2)],
      read_file = map_of [(''/B/ok.txt'', ascii ''ok'')],
      walk = (\<lambda>top.
        if top = ''/A'' then [(''/A'', [''link''])]
        else if top = ''/B'' then [(''/B'', [''ok.txt''])]
        else [])\<rparr>"



text \<open>
  A directory \<^verbatim>\<open>/B\<close> with a file and a symbolic link to nothing; a library whose
  extraction succeeds and leaves one file \<^verbatim>\<open>inner.txt\<close> in the extraction directory;
  and a path whose extension is \<^verbatim>\<open>.AP\<close> followed by U+212A KELVIN SIGN.
\<close>

definition dangling_b_fs :: filesys where
  "dangling_b_fs =
     \<lparr>getsize = map_of [(''/B/ok.txt'', 2)],
      read_file = map_of [(''/B/ok.txt'', ascii ''ok'')],
      walk = (\<lambda>top. if top = ''/B'' then [(''/B'', [''link'', ''ok.txt''])] else [])\<rparr>"



section \<open>The comparison loop\<close>

lemma classify_cases:
  assumes "p_a \<noteq> None \<or> p_b \<noteq> None"
    and "classify lib fs p_a p_b it0 s = (it, s')"
    and "type_category it0 = ''unknown''"
  shows "(type_category it = ''same'' \<and> s' = s\<lparr>same := same s + 1\<rparr>)
       \<or> (type_category it = ''diff'' \<and> s' = s\<lparr>diff := diff s + 1\<rparr>)
       \<or> (type_category it = ''added'' \<and> s' = s\<lparr>added := added s + 1\<rparr>)
       \<or> (type_category it = ''deleted'' \<and> s' = s\<lparr>deleted := deleted s + 1\<rparr>)"
  using assms
  by (auto simp: classify_def Let_def split: option.splits if_splits)

lemma all_keys_mapped:
  "k \<in> all_keys files_a files_b \<Longrightarrow> map_of files_a k \<noteq> None \<or> map_of files_b k \<noteq> None"
  by (auto simp: all_keys_def map_of_eq_None_iff)

lemma compare_item_cases:
  assumes "rel_path \<in> all_keys files_a files_b"
    and "compare_item lib fs files_a files_b s rel_path = Inr (it, s')"
  shows "(type_category it = ''same'' \<and> s' = s\<lparr>same := same s + 1\<rparr>)
       \<or> (type_category it = ''diff'' \<and> s' = s\<lparr>diff := diff s + 1\<rparr>)
       \<or> (type_category it = ''added'' \<and> s' = s\<lparr>added := added s + 1\<rparr>)
       \<or> (type_category it = ''deleted'' \<and> s' = s\<lparr>deleted := deleted s + 1\<rparr>)"
proof -
  from assms(2) obtain sa sb where
    c: "classify lib fs (map_of files_a rel_path) (map_of files_b rel_path)
          ((new_item rel_path)\<lparr>size_a := sa, size_b := sb\<rparr>) s = (it, s')"
    by (auto simp: compare_item_def Let_def split: sum.splits)
  show ?thesis
    by (rule classify_cases[OF all_keys_mapped[OF assms(1)] c]) (simp add: new_item_def)
qed

lemma compare_loop_invariant:
  assumes "compare_loop lib fs files_a files_b keys r = Inr r'"
    and "set keys \<subseteq> all_keys files_a files_b"
    and "counts_agree r" and "list_all category_known (details r)"
  shows "counts_agree r' \<and> list_all category_known (details r')
         \<and> length (details r') = length (details r) + length keys"
  using assms
proof (induction keys arbitrary: r)
  case Nil
  then show ?case by simp
next
  case (Cons k keys)
  from Cons.prems(1) obtain it s where
    item: "compare_item lib fs files_a files_b (summary r) k = Inr (it, s)"
    and rest: "compare_loop lib fs files_a files_b keys
                 \<lparr>summary = s, details = details r @ [it]\<rparr> = Inr r'"
    by (auto split: sum.splits)
  have k: "k \<in> all_keys files_a files_b"
    using Cons.prems(2) by simp
  note cases = compare_item_cases[OF k item]
  have agree: "counts_agree \<lparr>summary = s, details = details r @ [it]\<rparr>"
    using cases Cons.prems(3) by (auto simp: counts_agree_def count_category_def)
  have "category_known it"
    using cases by (auto simp: category_known_def)
  then have known: "list_all category_known (details \<lparr>summary = s, details = details r @ [it]\<rparr>)"
    using Cons.prems(4) by simp
  have "counts_agree r' \<and> list_all category_known (details r')
         \<and> length (details r') = length (details \<lparr>summary = s, details = details r @ [it]\<rparr>) + length keys"
    by (rule Cons.IH[OF rest _ agree known]) (use Cons.prems(2) in simp)
  then show ?case by simp
qed

lemma length_sorted_keys:
  "length (sorted_list_of_set (all_keys files_a files_b)) = card (all_keys files_a files_b)"
  by (simp add: all_keys_def)

lemma compare_maps_invariant:
  assumes "compare_maps lib fs files_a files_b = Inr r"
  shows "counts_agree r \<and> list_all category_known (details r)
         \<and> length (details r) = card (all_keys files_a files_b)
         \<and> total (summary r) = card (all_keys files_a files_b)"
proof -
  from assms obtain r0 where
    loop: "compare_loop lib fs files_a files_b
             (sorted_list_of_set (all_keys files_a files_b)) empty_result = Inr r0"
    and r: "r = r0\<lparr>summary := (summary r0)\<lparr>total := card (all_keys files_a files_b)\<rparr>\<rparr>"
    by (auto simp: compare_maps_def Let_def split: sum.splits)
  have fin: "finite (all_keys files_a files_b)"
    by (simp add: all_keys_def)
  have "counts_agree r0 \<and> list_all category_known (details r0)
         \<and> length (details r0) = length (details empty_result)
              + length (sorted_list_of_set (all_keys files_a files_b))"
    by (rule compare_loop_invariant[OF loop])
       (use fin in \<open>auto simp: counts_agree_def count_category_def empty_result_def\<close>)
  then show ?thesis
    by (simp add: r counts_agree_def length_sorted_keys empty_result_def)
qed





text \<open>
  Claim C8 (partition exhaustiveness). When \<^verbatim>\<open>compare\<close> returns, the category of every
  record is one of \<^verbatim>\<open>same\<close>, \<^verbatim>\<open>diff\<close>, \<^verbatim>\<open>added\<close> and \<^verbatim>\<open>deleted\<close>, never the
  initial \<^verbatim>\<open>unknown\<close>, and each counter of the summary is the number of records of its
  category.
\<close>

theorem partition_exhaustive:
  assumes "compare_maps lib fs files_a files_b = Inr r"
  shows "list_all category_known (details r)
       \<and> count_category ''unknown'' (details r) = 0
       \<and> same (summary r) = count_category ''same'' (details r)
       \<and> diff (summary r) = count_category ''diff'' (details r)
       \<and> added (summary r) = count_category ''added'' (details r)
       \<and> deleted (summary r) = count_category ''deleted'' (details r)"
proof -
  from compare_maps_invariant[OF assms]
  have inv: "counts_agree r" "list_all category_known (details r)"
    by simp_all
  have "count_category ''unknown'' its = 0" if "list_all category_known its" for its
    using that by (induction its) (auto simp: count_category_def category_known_def)
  with inv show ?thesis
    by (simp add: counts_agree_def)
qed

theorem partition_exhaustive_witness:
  "compare_maps demo_lib demo_fs demo_files_a demo_files_b = Inr demo_result
   \<and> list_all category_known (details demo_result)
   \<and> count_category ''unknown'' (details demo_result) = 0
   \<and> same (summary demo_result) = 1 \<and> count_category ''same'' (details demo_result) = 1
   \<and> diff (summary demo_result) = 2 \<and> count_category ''diff'' (details demo_result) = 2
   \<and> added (summary demo_result) = 1 \<and> count_category ''added'' (details demo_result) = 1
   \<and> deleted (summary demo_result) = 1
   \<and> count_category ''deleted'' (details demo_result) = 1"
proof -
  have run: "compare_maps demo_lib demo_fs demo_files_a demo_files_b = Inr demo_result"
    by code_simp
  from partition_exhaustive[OF run] run show ?thesis
    by (simp add: demo_result_def)
qed

section \<open>Unavailable digests and failing size inspection\<close>

lemma locked_compare: "compare demo_lib locked_fs ''/A'' ''/B'' = Inr locked_result"
  by code_simp

text \<open>
  Claim C1 says that a path present on both sides whose two digests are unavailable is
  classified as modified. The code compares the two \<^verbatim>\<open>None\<close> results with \<^verbatim>\<open>==\<close>:
  for two unreadable files the record is \<^verbatim>\<open>same\<close>.
\<close>

theorem both_digests_unavailable_is_same:
  "get_file_hash demo_lib locked_fs ''/A/f.bin'' = None
   \<and> get_file_hash demo_lib locked_fs ''/B/f.bin'' = None
   \<and> compare demo_lib locked_fs ''/A'' ''/B'' = Inr locked_result
   \<and> map type_category (details locked_result) = [''same'']"
  using locked_compare by (simp add: get_file_hash_def locked_fs_def locked_result_def)

text \<open>
  Claim C2 says that a record of category \<^verbatim>\<open>same\<close> has equal sizes and size delta 0.
  For the two unreadable files of sizes 3 and 5 the code emits a \<^verbatim>\<open>same\<close> record with
  \<open>size_diff = 2\<close>.
\<close>

theorem same_record_with_unequal_sizes:
  "compare demo_lib locked_fs ''/A'' ''/B'' = Inr locked_result
   \<and> map type_category (details locked_result) = [''same'']
   \<and> map size_a (details locked_result) = [3]
   \<and> map size_b (details locked_result) = [5]
   \<and> map size_diff (details locked_result) = [2]"
  using locked_compare by (simp add: locked_result_def)

text \<open>
  Claim C5 says that no per-file error, size inspection included, aborts the
  comparison. \<^verbatim>\<open>os.path.getsize\<close> is called outside any \<^verbatim>\<open>try\<close>: when it raises for one
  listed name, \<^verbatim>\<open>compare\<close> raises and returns no result.
\<close>

theorem getsize_failure_aborts_compare:
  "compare demo_lib dangling_fs ''/A'' ''/B'' = Inl (OSError ''/A/link'')"
  by code_simp

section \<open>The similarity fields\<close>

lemma classify_label:
  assumes "p_a \<noteq> None \<or> p_b \<noteq> None"
    and "classify lib fs p_a p_b it0 s = (it, s')"
    and "it0 = (new_item k)\<lparr>size_a := sa, size_b := sb\<rparr>"
    and "p_a = map_of files_a k" and "p_b = map_of files_b k"
  shows "label_as_coded lib fs files_a files_b it"
  using assms
  by (auto simp: classify_def Let_def label_as_coded_def new_item_def
           split: option.splits if_splits)

lemma compare_item_label:
  assumes "rel_path \<in> all_keys files_a files_b"
    and "compare_item lib fs files_a files_b s rel_path = Inr (it, s')"
  shows "label_as_coded lib fs files_a files_b it"
proof -
  from assms(2) obtain sa sb where
    c: "classify lib fs (map_of files_a rel_path) (map_of files_b rel_path)
          ((new_item rel_path)\<lparr>size_a := sa, size_b := sb\<rparr>) s = (it, s')"
    by (auto simp: compare_item_def Let_def split: sum.splits)
  show ?thesis
    by (rule classify_label[OF all_keys_mapped[OF assms(1)] c]) simp_all
qed

lemma compare_loop_label:
  assumes "compare_loop lib fs files_a files_b keys r = Inr r'"
    and "set keys \<subseteq> all_keys files_a files_b"
    and "list_all (label_as_coded lib fs files_a files_b) (details r)"
  shows "list_all (label_as_coded lib fs files_a files_b) (details r')"
  using assms
proof (induction keys arbitrary: r)
  case Nil
  then show ?case by simp
next
  case (Cons k keys)
  from Cons.prems(1) obtain it s where
    item: "compare_item lib fs files_a files_b (summary r) k = Inr (it, s)"
    and rest: "compare_loop lib fs files_a files_b keys
                 \<lparr>summary = s, details = details r @ [it]\<rparr> = Inr r'"
    by (auto split: sum.splits)
  have "label_as_coded lib fs files_a files_b it"
    by (rule compare_item_label[OF _ item]) (use Cons.prems(2) in simp)
  then have "list_all (label_as_coded lib fs files_a files_b)
               (details \<lparr>summary = s, details = details r @ [it]\<rparr>)"
    using Cons.prems(3) by simp
  from Cons.IH[OF rest _ this] Cons.prems(2) show ?case by simp
qed

text \<open>
  Claim C4, as amended: the similarity is 1 with label \<^verbatim>\<open>100%\<close> for a \<^verbatim>\<open>same\<close> record,
  the computed ratio with its formatted percentage for a \<^verbatim>\<open>diff\<close> record whose two
  files are text-like, and 0 otherwise; the label is the marker \<^verbatim>\<open>Hash\<close> U+4E0D U+540C,
  which is no percentage string, only for a \<^verbatim>\<open>diff\<close> record that is not text on both
  sides, and stays the initial \<^verbatim>\<open>0%\<close> for \<^verbatim>\<open>added\<close> and \<^verbatim>\<open>deleted\<close> records.
\<close>

theorem similarity_fields_as_coded:
  assumes "compare_maps lib fs files_a files_b = Inr r"
  shows "list_all (label_as_coded lib fs files_a files_b) (details r)
         \<and> \<not> is_percentage hash_differs"
proof -
  from assms obtain r0 where
    loop: "compare_loop lib fs files_a files_b
             (sorted_list_of_set (all_keys files_a files_b)) empty_result = Inr r0"
    and r: "r = r0\<lparr>summary := (summary r0)\<lparr>total := card (all_keys files_a files_b)\<rparr>\<rparr>"
    by (auto simp: compare_maps_def Let_def split: sum.splits)
  have fin: "finite (all_keys files_a files_b)"
    by (simp add: all_keys_def)
  have "list_all (label_as_coded lib fs files_a files_b) (details r0)"
    by (rule compare_loop_label[OF loop]) (use fin in \<open>simp_all add: empty_result_def\<close>)
  moreover have "\<not> is_percentage hash_differs"
    by (simp add: is_percentage_def hash_differs_def)
  ultimately show ?thesis by (simp add: r)
qed

theorem similarity_fields_as_coded_witness:
  "compare_maps demo_lib demo_fs demo_files_a demo_files_b = Inr demo_result
   \<and> list_all (label_as_coded demo_lib demo_fs demo_files_a demo_files_b) (details demo_result)
   \<and> map similarity_str (details demo_result) = [''0%'', ''25.0%'', ''0%'', ''100%'', hash_differs]
   \<and> \<not> is_percentage hash_differs"
proof -
  have run: "compare_maps demo_lib demo_fs demo_files_a demo_files_b = Inr demo_result"
    by code_simp
  from similarity_fields_as_coded[OF run] run show ?thesis
    by (simp add: demo_result_def)
qed

text \<open>
  Claim C4 as stated fails: the records of the added and the deleted file carry the
  similarity 0 and the label \<^verbatim>\<open>0%\<close>, a percentage string.
\<close>

theorem added_record_has_percentage_label:
  "compare_maps demo_lib demo_fs demo_files_a demo_files_b = Inr demo_result
   \<and> map type_category (details demo_result) = [''deleted'', ''diff'', ''added'', ''same'', ''diff'']
   \<and> map similarity (details demo_result) = [0, 1 / 4, 0, 1, 0]
   \<and> map similarity_str (details demo_result) = [''0%'', ''25.0%'', ''0%'', ''100%'', hash_differs]
   \<and> is_percentage ''0%''"
proof -
  have run: "compare_maps demo_lib demo_fs demo_files_a demo_files_b = Inr demo_result"
    by code_simp
  then show ?thesis
    by (simp add: demo_result_def is_percentage_def)
qed

section \<open>Archives\<close>

lemma sizes_known_lookup:
  "sizes_known fs files \<Longrightarrow> map_of files k = Some p \<Longrightarrow> \<exists>n. getsize fs p = Some n"
  by (auto simp: sizes_known_def list_all_iff dest!: map_of_SomeD)

lemma size_of_known:
  "sizes_known fs files \<Longrightarrow> \<exists>n. size_of fs (map_of files k) = Inr n"
  by (cases "map_of files k") (auto simp: size_of_def dest: sizes_known_lookup)

lemma compare_item_returns:
  assumes "sizes_known fs files_a" and "sizes_known fs files_b"
  shows "\<exists>it s'. compare_item lib fs files_a files_b s k = Inr (it, s')"
proof -
  obtain sa sb where "size_of fs (map_of files_a k) = Inr sa" "size_of fs (map_of files_b k) = Inr sb"
    using size_of_known[OF assms(1)] size_of_known[OF assms(2)] by blast
  then show ?thesis
    by (cases "classify lib fs (map_of files_a k) (map_of files_b k)
                 ((new_item k)\<lparr>size_a := sa, size_b := sb\<rparr>) s")
       (simp add: compare_item_def)
qed

lemma compare_loop_returns:
  assumes "sizes_known fs files_a" and "sizes_known fs files_b"
  shows "\<exists>r'. compare_loop lib fs files_a files_b keys r = Inr r'"
proof (induction keys arbitrary: r)
  case Nil
  show ?case by simp
next
  case (Cons k keys)
  obtain it s' where "compare_item lib fs files_a files_b (summary r) k = Inr (it, s')"
    using compare_item_returns[OF assms] by blast
  then show ?case
    using Cons.IH by simp
qed

lemma compare_maps_returns:
  assumes "sizes_known fs files_a" and "sizes_known fs files_b"
  shows "\<exists>r. compare_maps lib fs files_a files_b = Inr r"
proof -
  obtain r' where "compare_loop lib fs files_a files_b
      (sorted_list_of_set (all_keys files_a files_b)) empty_result = Inr r'"
    using compare_loop_returns[OF assms] by blast
  then show ?thesis
    by (simp add: compare_maps_def)
qed

lemma compare_item_path:
  "compare_item lib fs files_a files_b s k = Inr (it, s') \<Longrightarrow> path it = k"
  by (auto simp: compare_item_def classify_def new_item_def Let_def
           split: sum.splits option.splits if_splits)

lemma compare_loop_paths:
  "compare_loop lib fs files_a files_b keys r = Inr r' \<Longrightarrow>
     map path (details r') = map path (details r) @ keys"
proof (induction keys arbitrary: r)
  case Nil
  then show ?case by simp
next
  case (Cons k keys)
  from Cons.prems obtain it s where
    item: "compare_item lib fs files_a files_b (summary r) k = Inr (it, s)"
    and rest: "compare_loop lib fs files_a files_b keys
                 \<lparr>summary = s, details = details r @ [it]\<rparr> = Inr r'"
    by (auto split: sum.splits)
  from Cons.IH[OF rest] compare_item_path[OF item] show ?case by simp
qed

lemma compare_maps_paths:
  assumes "compare_maps lib fs files_a files_b = Inr r"
  shows "map path (details r) = sorted_list_of_set (all_keys files_a files_b)"
proof -
  from assms obtain r0 where
    loop: "compare_loop lib fs files_a files_b
             (sorted_list_of_set (all_keys files_a files_b)) empty_result = Inr r0"
    and r: "r = r0\<lparr>summary := (summary r0)\<lparr>total := card (all_keys files_a files_b)\<rparr>\<rparr>"
    by (auto simp: compare_maps_def Let_def split: sum.splits)
  from compare_loop_paths[OF loop] show ?thesis
    by (simp add: r empty_result_def)
qed

lemma classify_only_b:
  "classify lib fs None (Some pb) it0 s =
     (it0\<lparr>status := status_added, type_category := ''added'', size_diff := size_b it0\<rparr>,
      s\<lparr>added := added s + 1\<rparr>)"
  by (simp add: classify_def)

lemma classify_only_a:
  "classify lib fs (Some pa) None it0 s =
     (it0\<lparr>status := status_deleted, type_category := ''deleted'', size_diff := - size_a it0\<rparr>,
      s\<lparr>deleted := deleted s + 1\<rparr>)"
  by (simp add: classify_def)

lemma compare_item_only_b:
  assumes "compare_item lib fs [] files_b s k = Inr (it, s')" and "k \<in> set (map fst files_b)"
  shows "type_category it = ''added''"
proof -
  from assms(2) obtain p where p: "map_of files_b k = Some p"
    by (cases "map_of files_b k") (simp_all add: map_of_eq_None_iff)
  from assms(1) obtain sa sb where
    "classify lib fs None (Some p) ((new_item k)\<lparr>size_a := sa, size_b := sb\<rparr>) s = (it, s')"
    by (auto simp: compare_item_def p Let_def split: sum.splits)
  then show ?thesis
    by (simp add: classify_only_b) auto
qed

lemma compare_item_only_a:
  assumes "compare_item lib fs files_a [] s k = Inr (it, s')" and "k \<in> set (map fst files_a)"
  shows "type_category it = ''deleted''"
proof -
  from assms(2) obtain p where p: "map_of files_a k = Some p"
    by (cases "map_of files_a k") (simp_all add: map_of_eq_None_iff)
  from assms(1) obtain sa sb where
    "classify lib fs (Some p) None ((new_item k)\<lparr>size_a := sa, size_b := sb\<rparr>) s = (it, s')"
    by (auto simp: compare_item_def p Let_def split: sum.splits)
  then show ?thesis
    by (simp add: classify_only_a) auto
qed

lemma compare_loop_only_b:
  assumes "compare_loop lib fs [] files_b keys r = Inr r'"
    and "set keys \<subseteq> set (map fst files_b)"
    and "list_all (\<lambda>it. type_category it = ''added'') (details r)"
  shows "list_all (\<lambda>it. type_category it = ''added'') (details r')"
  using assms
proof (induction keys arbitrary: r)
  case Nil
  then show ?case by simp
next
  case (Cons k keys)
  from Cons.prems(1) obtain it s where
    item: "compare_item lib fs [] files_b (summary r) k = Inr (it, s)"
    and rest: "compare_loop lib fs [] files_b keys
                 \<lparr>summary = s, details = details r @ [it]\<rparr> = Inr r'"
    by (auto split: sum.splits)
  have "type_category it = ''added''"
    by (rule compare_item_only_b[OF item]) (use Cons.prems(2) in simp)
  then have "list_all (\<lambda>it. type_category it = ''added'')
               (details \<lparr>summary = s, details = details r @ [it]\<rparr>)"
    using Cons.prems(3) by simp
  from Cons.IH[OF rest _ this] Cons.prems(2) show ?case by simp
qed

lemma compare_loop_only_a:
  assumes "compare_loop lib fs files_a [] keys r = Inr r'"
    and "set keys \<subseteq> set (map fst files_a)"
    and "list_all (\<lambda>it. type_category it = ''deleted'') (details r)"
  shows "list_all (\<lambda>it. type_category it = ''deleted'') (details r')"
  using assms
proof (induction keys arbitrary: r)
  case Nil
  then show ?case by simp
next
  case (Cons k keys)
  from Cons.prems(1) obtain it s where
    item: "compare_item lib fs files_a [] (summary r) k = Inr (it, s)"
    and rest: "compare_loop lib fs files_a [] keys
                 \<lparr>summary = s, details = details r @ [it]\<rparr> = Inr r'"
    by (auto split: sum.splits)
  have "type_category it = ''deleted''"
    by (rule compare_item_only_a[OF item]) (use Cons.prems(2) in simp)
  then have "list_all (\<lambda>it. type_category it = ''deleted'')
               (details \<lparr>summary = s, details = details r @ [it]\<rparr>)"
    using Cons.prems(3) by simp
  from Cons.IH[OF rest _ this] Cons.prems(2) show ?case by simp
qed

lemma count_all_of_category:
  "list_all (\<lambda>it. type_category it = c) its \<Longrightarrow> count_category c' its = (if c' = c then length its else 0)"
  by (induction its) (auto simp: count_category_def)

lemma compare_maps_only_b:
  assumes "compare_maps lib fs [] files_b = Inr r"
  shows "one_sided ''added'' files_b r"
proof -
  from assms obtain r0 where
    loop: "compare_loop lib fs [] files_b
             (sorted_list_of_set (all_keys [] files_b)) empty_result = Inr r0"
    and r: "r = r0\<lparr>summary := (summary r0)\<lparr>total := card (all_keys [] files_b)\<rparr>\<rparr>"
    by (auto simp: compare_maps_def Let_def split: sum.splits)
  have keys: "all_keys [] files_b = set (map fst files_b)"
    by (simp add: all_keys_def)
  have "list_all (\<lambda>it. type_category it = ''added'') (details r0)"
    by (rule compare_loop_only_b[OF loop]) (simp_all add: keys empty_result_def)
  then have all: "list_all (\<lambda>it. type_category it = ''added'') (details r)"
    by (simp add: r)
  from compare_maps_invariant[OF assms] compare_maps_paths[OF assms] all
    count_all_of_category[OF all]
  show ?thesis
    by (simp add: one_sided_def counts_agree_def keys)
qed

lemma compare_maps_only_a:
  assumes "compare_maps lib fs files_a [] = Inr r"
  shows "one_sided ''deleted'' files_a r"
proof -
  from assms obtain r0 where
    loop: "compare_loop lib fs files_a []
             (sorted_list_of_set (all_keys files_a [])) empty_result = Inr r0"
    and r: "r = r0\<lparr>summary := (summary r0)\<lparr>total := card (all_keys files_a [])\<rparr>\<rparr>"
    by (auto simp: compare_maps_def Let_def split: sum.splits)
  have keys: "all_keys files_a [] = set (map fst files_a)"
    by (simp add: all_keys_def)
  have "list_all (\<lambda>it. type_category it = ''deleted'') (details r0)"
    by (rule compare_loop_only_a[OF loop]) (simp_all add: keys empty_result_def)
  then have all: "list_all (\<lambda>it. type_category it = ''deleted'') (details r)"
    by (simp add: r)
  from compare_maps_invariant[OF assms] compare_maps_paths[OF assms] all
    count_all_of_category[OF all]
  show ?thesis
    by (simp add: one_sided_def counts_agree_def keys)
qed

lemma extract_or_walk_failed:
  "extraction_fails lib fs target_path temp_dir \<Longrightarrow>
     fst (extract_or_walk lib fs target_path temp_dir) = []"
  by (auto simp: extraction_fails_def extract_or_walk_def Let_def split: prod.splits)

lemma demo_mkdtemp: "mkdtemp demo_lib demo_fs = Some (''/tmp/scratch'', demo_fs)"
  by (simp add: demo_lib_def)

lemma demo_walk_a: "extract_or_walk demo_lib demo_fs ''/A'' ''/tmp/scratch'' = (demo_files_a, demo_fs)"
proof -
  have ext: "lower (snd (splitext ''/A'')) = []"
    by code_simp
  have files: "walk_dirs demo_lib (abspath demo_lib ''/A'') (walk demo_fs (abspath demo_lib ''/A'')) []
      = demo_files_a"
    by code_simp
  show ?thesis
    unfolding extract_or_walk_def Let_def ext files
    by (simp add: archive_exts_def)
qed

lemma demo_walk_b: "extract_or_walk demo_lib demo_fs ''/B'' ''/tmp/scratch'' = (demo_files_b, demo_fs)"
proof -
  have ext: "lower (snd (splitext ''/B'')) = []"
    by code_simp
  have files: "walk_dirs demo_lib (abspath demo_lib ''/B'') (walk demo_fs (abspath demo_lib ''/B'')) []
      = demo_files_b"
    by code_simp
  show ?thesis
    unfolding extract_or_walk_def Let_def ext files
    by (simp add: archive_exts_def)
qed

lemma demo_broken_zip:
  "extraction_fails demo_lib demo_fs ''/pkg/broken.zip'' ''/tmp/scratch''"
  "extract_or_walk demo_lib demo_fs ''/pkg/broken.zip'' ''/tmp/scratch'' = ([], demo_fs)"
proof -
  have ext: "lower (snd (splitext ''/pkg/broken.zip'')) = ''.zip''"
    by code_simp
  show "extraction_fails demo_lib demo_fs ''/pkg/broken.zip'' ''/tmp/scratch''"
    unfolding extraction_fails_def ext by (simp add: archive_exts_def demo_lib_def)
  show "extract_or_walk demo_lib demo_fs ''/pkg/broken.zip'' ''/tmp/scratch'' = ([], demo_fs)"
    unfolding extract_or_walk_def Let_def ext by (simp add: archive_exts_def demo_lib_def)
qed

lemma demo_sizes_known: "sizes_known demo_fs demo_files_a" "sizes_known demo_fs demo_files_b"
  by code_simp+

text \<open>
  When the sizes of the listed files can be read, a failed extraction of one side leaves
  that side's PathMap empty and \<^verbatim>\<open>compare\<close> returns a result in which every key of
  the other side has one record, all of category \<^verbatim>\<open>added\<close> (when side A failed) or
  \<^verbatim>\<open>deleted\<close> (when side B failed), with the matching counter.
\<close>

lemma one_sided_result_when_sizes_known:
  assumes "mkdtemp lib fs = Some (temp_root, fs0)"
    and "extract_or_walk lib fs0 path_a temp_root = (files_a, fs1)"
    and "extract_or_walk lib fs1 path_b temp_root = (files_b, fs2)"
    and "sizes_known fs2 files_a" and "sizes_known fs2 files_b"
  shows "(extraction_fails lib fs0 path_a temp_root \<longrightarrow>
            files_a = []
            \<and> (\<exists>r. compare lib fs path_a path_b = Inr r \<and> one_sided ''added'' files_b r))
       \<and> (extraction_fails lib fs1 path_b temp_root \<longrightarrow>
            files_b = []
            \<and> (\<exists>r. compare lib fs path_a path_b = Inr r \<and> one_sided ''deleted'' files_a r))"
proof -
  have cmp: "compare lib fs path_a path_b = compare_maps lib fs2 files_a files_b"
    using assms(1-3) by (simp add: compare_def)
  obtain r where r: "compare_maps lib fs2 files_a files_b = Inr r"
    using compare_maps_returns[OF assms(4,5)] by blast
  have a: "files_a = [] \<and> (\<exists>r. compare lib fs path_a path_b = Inr r \<and> one_sided ''added'' files_b r)"
    if "extraction_fails lib fs0 path_a temp_root"
  proof -
    have "files_a = []"
      using extract_or_walk_failed[OF that] assms(2) by simp
    then show ?thesis
      using r cmp compare_maps_only_b by auto
  qed
  have b: "files_b = [] \<and> (\<exists>r. compare lib fs path_a path_b = Inr r \<and> one_sided ''deleted'' files_a r)"
    if "extraction_fails lib fs1 path_b temp_root"
  proof -
    have "files_b = []"
      using extract_or_walk_failed[OF that] assms(3) by simp
    then show ?thesis
      using r cmp compare_maps_only_a by auto
  qed
  from a b show ?thesis by blast
qed

lemma one_sided_result_example:
  "extraction_fails demo_lib demo_fs ''/pkg/broken.zip'' ''/tmp/scratch''
   \<and> (\<exists>r. compare demo_lib demo_fs ''/pkg/broken.zip'' ''/B'' = Inr r
          \<and> one_sided ''added'' demo_files_b r \<and> added (summary r) = 4)
   \<and> (\<exists>r. compare demo_lib demo_fs ''/A'' ''/pkg/broken.zip'' = Inr r
          \<and> one_sided ''deleted'' demo_files_a r \<and> deleted (summary r) = 4)"
proof -
  have none: "sizes_known demo_fs []"
    by (simp add: sizes_known_def)
  have card_a: "card (set (map fst demo_files_a)) = 4" and card_b: "card (set (map fst demo_files_b)) = 4"
    by code_simp+
  from one_sided_result_when_sizes_known[OF demo_mkdtemp demo_broken_zip(2) demo_walk_b none
      demo_sizes_known(2)] demo_broken_zip(1)
  have a: "\<exists>r. compare demo_lib demo_fs ''/pkg/broken.zip'' ''/B'' = Inr r
          \<and> one_sided ''added'' demo_files_b r"
    by blast
  from one_sided_result_when_sizes_known[OF demo_mkdtemp demo_walk_a demo_broken_zip(2)
      demo_sizes_known(1) none] demo_broken_zip(1)
  have b: "\<exists>r. compare demo_lib demo_fs ''/A'' ''/pkg/broken.zip'' = Inr r
          \<and> one_sided ''deleted'' demo_files_a r"
    by blast
  from a obtain ra where ra: "compare demo_lib demo_fs ''/pkg/broken.zip'' ''/B'' = Inr ra"
    "one_sided ''added'' demo_files_b ra"
    by blast
  from b obtain rb where rb: "compare demo_lib demo_fs ''/A'' ''/pkg/broken.zip'' = Inr rb"
    "one_sided ''deleted'' demo_files_a rb"
    by blast
  have "added (summary ra) = 4"
    using ra(2) unfolding one_sided_def card_b by simp
  moreover have "deleted (summary rb) = 4"
    using rb(2) unfolding one_sided_def card_a by simp
  ultimately show ?thesis
    using ra rb demo_broken_zip(1) by blast
qed

text \<open>
  Claim C9 says that after a failed extraction of one side the comparison proceeds
  without raising and reports every file of the other side. The PathMap of the failed
  side is empty, but \<^verbatim>\<open>os.path.getsize\<close> is called outside any \<^verbatim>\<open>try\<close>: when the other
  side lists a name whose size cannot be read, \<^verbatim>\<open>compare\<close> raises and reports nothing.
\<close>

theorem failed_extraction_then_getsize_raises:
  "extraction_fails demo_lib dangling_b_fs ''/pkg/broken.zip'' ''/tmp/scratch''
   \<and> fst (extract_or_walk demo_lib dangling_b_fs ''/pkg/broken.zip'' ''/tmp/scratch'') = []
   \<and> fst (extract_or_walk demo_lib dangling_b_fs ''/B'' ''/tmp/scratch'')
       = [(''link'', ''/B/link''), (''ok.txt'', ''/B/ok.txt'')]
   \<and> compare demo_lib dangling_b_fs ''/pkg/broken.zip'' ''/B'' = Inl (OSError ''/B/link'')"
proof -
  have ext: "lower (snd (splitext ''/pkg/broken.zip'')) = ''.zip''"
    by code_simp
  have fails: "extraction_fails demo_lib dangling_b_fs ''/pkg/broken.zip'' ''/tmp/scratch''"
    unfolding extraction_fails_def ext by (simp add: archive_exts_def demo_lib_def)
  have a: "fst (extract_or_walk demo_lib dangling_b_fs ''/pkg/broken.zip'' ''/tmp/scratch'') = []"
    by code_simp
  have b: "fst (extract_or_walk demo_lib dangling_b_fs ''/B'' ''/tmp/scratch'')
       = [(''link'', ''/B/link''), (''ok.txt'', ''/B/ok.txt'')]"
    by code_simp
  have c: "compare demo_lib dangling_b_fs ''/pkg/broken.zip'' ''/B'' = Inl (OSError ''/B/link'')"
    by code_simp
  from fails a b c show ?thesis by (simp only: simp_thms)
qed






lemma lower_examples:
  "lower ''.ZIP'' = ''.zip''" "lower ''.Jar'' = ''.jar''"
  "lower (''.AP'' @ [CHR 0xE2, CHR 0x84, CHR 0xAA]) = ''.apk''"
  by code_simp+



section \<open>The similarity ratio and the order of its arguments\<close>

lemma chain_b_index_keys:
  "fst ` set (chain_b_index b i b2j) \<subseteq> set b \<union> fst ` set b2j"
proof (induction b arbitrary: i b2j)
  case Nil
  show ?case by simp
next
  case (Cons elt b)
  have "fst ` set (chain_b_index b (i + 1)
          (AList.update elt ((case map_of b2j elt of None \<Rightarrow> [] | Some indices \<Rightarrow> indices) @ [i]) b2j))
        \<subseteq> set b \<union> fst ` set (AList.update elt
          ((case map_of b2j elt of None \<Rightarrow> [] | Some indices \<Rightarrow> indices) @ [i]) b2j)"
    by (rule Cons.IH)
  then show ?case
    by (auto simp: dom_update)
qed

lemma chain_b_keys: "fst ` set (chain_b b) \<subseteq> set b"
proof -
  have "fst ` set (chain_b_index b 0 []) \<subseteq> set b"
    using chain_b_index_keys[of b 0 "[]"] by simp
  then show ?thesis
    by (auto simp: chain_b_def Let_def)
qed

lemma b2j_get_absent: "x \<notin> set b \<Longrightarrow> b2j_get (chain_b b) x = []"
proof -
  assume "x \<notin> set b"
  moreover have "fst ` set (chain_b b) \<subseteq> set b"
    by (rule chain_b_keys)
  ultimately have "x \<notin> fst ` set (chain_b b)"
    by (rule contra_subsetD[rotated])
  then have "map_of (chain_b b) x = None"
    by (simp add: map_of_eq_None_iff)
  then show ?thesis
    by (simp add: b2j_get_def)
qed

lemma flm_outer_no_candidates:
  "(\<And>i. i \<in> set is \<Longrightarrow> b2j_get b2j (a ! i) = []) \<Longrightarrow>
     flm_outer a b2j blo bhi is j2len best = best"
proof (induction "is" arbitrary: j2len)
  case Nil
  show ?case by simp
next
  case (Cons i "is")
  have none: "b2j_get b2j (a ! i) = []"
    by (rule Cons.prems) simp
  have "flm_outer a b2j blo bhi is Map.empty best = best"
    by (rule Cons.IH) (simp add: Cons.prems)
  then show ?case
    by (simp add: none)
qed

lemma extend_left_at_start: "extend_left want a b alo blo (alo, bestj, bestsize) = (alo, bestj, bestsize)"
  by (subst extend_left.simps) simp

lemma extend_right_stops:
  "\<not> (besti + bestsize < ahi \<and> bestj + bestsize < bhi \<and> want (b ! (bestj + bestsize))
       \<and> a ! (besti + bestsize) = b ! (bestj + bestsize)) \<Longrightarrow>
     extend_right want a b ahi bhi (besti, bestj, bestsize) = (besti, bestj, bestsize)"
  by (subst extend_right.simps) auto

lemma find_longest_match_disjoint:
  assumes "set a \<inter> set b = {}"
  shows "find_longest_match a b (chain_b b) (\<lambda>x. False) 0 (length a) 0 (length b) = (0, 0, 0)"
proof -
  have "b2j_get (chain_b b) (a ! i) = []" if "i \<in> set [0..<length a]" for i
  proof -
    from that have "a ! i \<in> set a" by simp
    with assms have "a ! i \<notin> set b" by blast
    then show ?thesis by (rule b2j_get_absent)
  qed
  then have outer: "flm_outer a (chain_b b) 0 (length b) [0..<length a] Map.empty (0, 0, 0) = (0, 0, 0)"
    by (rule flm_outer_no_candidates)
  have differ: "\<not> (0 + 0 < length a \<and> 0 + 0 < length b \<and> want (b ! (0 + 0)) \<and> a ! (0 + 0) = b ! (0 + 0))"
    for want :: "'a \<Rightarrow> bool"
  proof
    assume h: "0 + 0 < length a \<and> 0 + 0 < length b \<and> want (b ! (0 + 0)) \<and> a ! (0 + 0) = b ! (0 + 0)"
    then have la: "0 < length a" and lb: "0 < length b" and eq: "a ! 0 = b ! 0" by simp_all
    have "a ! 0 \<in> set a" using la by (rule nth_mem)
    moreover have "b ! 0 \<in> set b" using lb by (rule nth_mem)
    ultimately show False using assms eq by (metis disjoint_iff)
  qed
  have right: "extend_right want a b (length a) (length b) (0, 0, 0) = (0, 0, 0)"
    for want :: "'a \<Rightarrow> bool"
    by (rule extend_right_stops[OF differ])
  show ?thesis
    unfolding find_longest_match_def Let_def outer
    by (simp only: extend_left_at_start right)
qed

lemma ratio_disjoint:
  assumes "set a \<inter> set b = {}"
  shows "ratio a b = calculate_ratio 0 (length a + length b)"
proof -
  have "matching_blocks_loop a b (chain_b b) (\<lambda>x. False) [(0, length a, 0, length b)] [] = []"
    by (simp add: find_longest_match_disjoint[OF assms])
  then have "get_matching_blocks a b = [(length a, length b, 0)]"
    by (simp add: get_matching_blocks_def)
  then show ?thesis
    by (simp add: ratio_def)
qed

lemma ratio_symmetric_disjoint:
  assumes "set a \<inter> set b = {}"
  shows "ratio a b = ratio b a"
proof -
  from assms have "set b \<inter> set a = {}" by blast
  from ratio_disjoint[OF assms] ratio_disjoint[OF this] show ?thesis
    by (simp add: add.commute)
qed

text \<open>
  Claim C3, as amended: for two readable files whose decoded texts are equal or have no
  character in common, the similarity ratio of the one to the other equals that of the
  other to the one. For other pairs the ratio can depend on the order, since
  \<^verbatim>\<open>SequenceMatcher\<close> indexes its second argument and scans its first.
\<close>

theorem similarity_symmetric_when_disjoint_or_equal:
  assumes "read_file fs file1 = Some content1" and "read_file fs file2 = Some content2"
    and "read_text_ignore content1 = read_text_ignore content2
         \<or> set (read_text_ignore content1) \<inter> set (read_text_ignore content2) = {}"
  shows "get_text_similarity lib fs file1 file2 = get_text_similarity lib fs file2 file1"
proof -
  have sim12: "get_text_similarity lib fs file1 file2
      = ratio (read_text_ignore content1) (read_text_ignore content2)"
    and sim21: "get_text_similarity lib fs file2 file1
      = ratio (read_text_ignore content2) (read_text_ignore content1)"
    using assms(1,2) by (simp_all add: get_text_similarity_def)
  from assms(3) show ?thesis
  proof
    assume "read_text_ignore content1 = read_text_ignore content2"
    then show ?thesis by (simp only: sim12 sim21)
  next
    assume "set (read_text_ignore content1) \<inter> set (read_text_ignore content2) = {}"
    then show ?thesis
      unfolding sim12 sim21 by (rule ratio_symmetric_disjoint)
  qed
qed

theorem similarity_symmetric_when_disjoint_or_equal_witness:
  "read_file demo_fs ''/A/same.txt'' = Some (ascii ''hello'')
   \<and> read_file demo_fs ''/B/new.txt'' = Some (ascii ''x'')
   \<and> set (read_text_ignore (ascii ''hello'')) \<inter> set (read_text_ignore (ascii ''x'')) = {}
   \<and> get_text_similarity demo_lib demo_fs ''/A/same.txt'' ''/B/new.txt'' = 0
   \<and> get_text_similarity demo_lib demo_fs ''/B/new.txt'' ''/A/same.txt'' = 0"
proof -
  have a: "read_file demo_fs ''/A/same.txt'' = Some (ascii ''hello'')"
    and b: "read_file demo_fs ''/B/new.txt'' = Some (ascii ''x'')"
    by (simp_all add: demo_fs_def demo_files_def)
  have disj: "set (read_text_ignore (ascii ''hello'')) \<inter> set (read_text_ignore (ascii ''x'')) = {}"
    by code_simp
  have v: "get_text_similarity demo_lib demo_fs ''/A/same.txt'' ''/B/new.txt'' = 0"
    by code_simp
  from similarity_symmetric_when_disjoint_or_equal[of demo_fs _ _ _ _ demo_lib, OF a b disjI2[OF disj]]
    a b disj v
  show ?thesis by simp
qed

text \<open>
  Claim C3 as stated fails: for the texts \<^verbatim>\<open>tide\<close> and \<^verbatim>\<open>diet\<close> the ratio is 0.25 in
  one order and 0.5 in the other.
\<close>

theorem similarity_depends_on_argument_order:
  "read_file demo_fs ''/A/mod.txt'' = Some (ascii ''tide'')
   \<and> read_file demo_fs ''/B/mod.txt'' = Some (ascii ''diet'')
   \<and> get_text_similarity demo_lib demo_fs ''/A/mod.txt'' ''/B/mod.txt'' = 1 / 4
   \<and> get_text_similarity demo_lib demo_fs ''/B/mod.txt'' ''/A/mod.txt'' = 1 / 2"
proof -
  have "get_text_similarity demo_lib demo_fs ''/A/mod.txt'' ''/B/mod.txt'' = 1 / 4"
    by code_simp
  moreover have "get_text_similarity demo_lib demo_fs ''/B/mod.txt'' ''/A/mod.txt'' = 1 / 2"
    by code_simp
  ultimately show ?thesis
    by (simp add: demo_fs_def demo_files_def)
qed

section \<open>Text detection\<close>



























end
